theory Spec2Isabelle
  imports Main "HOL-Library.Word"
begin

section \<open>Data model of the SI47XX touch-shield receiver sketch\<close>

text \<open>
  The sketch keeps its whole receiver state in global variables and drives the radio
  chip through the object \<open>si4735\<close> and the display through \<open>tft\<close>. The model below
  threads one record of those globals through every function. The two external
  collaborators are write-only from the sketch's point of view, so each is a log: the
  list of commands sent to the chip and the list of RDS-related drawing calls. Values
  read back from the chip (frequency, RSSI, RDS buffers) are inputs of a poll tick.
  Pixel rendering (\<open>showFrequency\<close>, \<open>showBFO\<close>, \<open>showRSSI\<close>, the text part of
  \<open>showStatus\<close>) and the \<open>delay\<close> calls change none of the modelled globals and are
  left out.
\<close>

datatype BandType = FM_BAND_TYPE | MW_BAND_TYPE | SW_BAND_TYPE | LW_BAND_TYPE

datatype Mode = FM | LSB | USB | AM

text \<open>
  The struct \<open>Band\<close>. Its last field is \<open>currentStep\<close> in the source; it is
  \<open>currentStepB\<close> here because the global \<open>currentStep\<close> keeps the plain name.
\<close>

record Band =
  bandName :: string
  bandType :: BandType
  minimumFreq :: "16 word"
  maximumFreq :: "16 word"
  currentFreq :: "16 word"
  currentStepB :: "16 word"

datatype seek_dir = SEEK_UP | SEEK_DOWN

text \<open>Every call on \<open>si4735\<close> that talks to the chip, with its arguments.\<close>

datatype chip_cmd =
    Reset
  | QueryLibraryId
  | PatchPowerUp
  | SetI2CFastMode
  | DownloadPatch
  | SetI2CStandardMode
  | SetSSBConfig "8 word" nat nat nat nat nat
  | SetTuneFrequencyAntennaCapacitor nat
  | SetFM "16 word" "16 word" "16 word" "16 word"
  | SetFMDeEmphasis nat
  | SetSeekFmLimits "16 word" "16 word"
  | SetRdsConfig nat nat nat nat nat
  | SetSSB "16 word" "16 word" "16 word" "16 word" Mode
  | SetSSBAutomaticVolumeControl nat
  | SetSsbSoftMuteMaxAttenuation nat
  | SetAM "16 word" "16 word" "16 word" "16 word"
  | SetAmSoftMuteMaxAttenuation nat
  | SetSeekAmLimits "16 word" "16 word"
  | SetSeekAmSpacing "16 word"
  | SetAutomaticGainControl "8 word" "8 word"
  | GetStatus
  | GetCurrentReceivedSignalQuality
  | GetFrequency
  | GetAutomaticGainControl
  | SetSSBBfo int
  | FrequencyUp
  | FrequencyDown
  | VolumeUp
  | VolumeDown
  | SeekStationProgress seek_dir
  | SetAudioMute bool
  | SetSSBAudioBandwidth "8 word"
  | SetSBBSidebandCutoffFilter nat
  | SetBandwidth "8 word" nat
  | SetFmStereoOn
  | SetFmStereoOff
  | SetFrequencyStep "16 word"
  | GetRdsStatus

text \<open>
  The text \<open>showStatus\<close> leaves in \<open>bufferAGC\<close>: either the literal \<open>AGC ON\<close> or
  \<open>ATT: %2d\<close> printed from \<open>agcNdx\<close>.
\<close>

datatype agc_label = AGC_ON | ATT "8 word"

text \<open>
  The drawing calls of the RDS area: the \<open>fillRect\<close> that blanks it and
  \<open>printText col line new\<close>, which draws \<open>new\<close> over the old text.
\<close>

datatype tft_call = FillRect | PrintText nat nat string

text \<open>
  Dereferencing one of the global \<open>char *\<close> pointers while it is null.
\<close>

datatype error = NullPointerWrite | NullPointerRead

text \<open>
  The globals. A \<open>char *\<close> is \<open>None\<close> when null and otherwise holds the C string it
  points to (the three RDS pointers point into three distinct buffers of the chip
  library). \<open>currentBFO\<close> is a C \<open>int\<close>; nothing below depends on its range.
\<close>

record state =
  bfoOn :: bool
  audioMute :: bool
  ssbLoaded :: bool
  fmStereo :: bool
  agcIdx :: "8 word"
  disableAgc :: "8 word"
  agcNdx :: "8 word"
  currentBFO :: int
  rssi :: "8 word"
  band :: "Band list"
  bandIdx :: int
  lastSwBand :: int
  currentFrequency :: "16 word"
  previousFrequency :: "16 word"
  currentStep :: "16 word"
  currentBFOStep :: "8 word"
  bwIdxSSB :: "8 word"
  bwIdxAM :: "8 word"
  currentMode :: Mode
  bufferAGC :: agc_label
  rdsMsg :: "string option"
  stationName :: "string option"
  rdsTime :: "string option"
  bufferStatioName :: string
  bufferRdsMsg :: string
  bufferRdsTime :: string
  si4735 :: "chip_cmd list"
  tft :: "tft_call list"

text \<open>The initial band table, entry by entry as in the source.\<close>

definition mkBand :: "string \<Rightarrow> BandType \<Rightarrow> 16 word \<Rightarrow> 16 word \<Rightarrow> 16 word \<Rightarrow> 16 word \<Rightarrow> Band" where
  "mkBand n t lo hi f st =
     \<lparr>bandName = n, bandType = t, minimumFreq = lo, maximumFreq = hi,
      currentFreq = f, currentStepB = st\<rparr>"

definition band_init :: "Band list" where
  "band_init =
    [mkBand ''FM  '' FM_BAND_TYPE 8400 10800 10390 10,
     mkBand ''LW  '' LW_BAND_TYPE 100 510 300 1,
     mkBand ''AM  '' MW_BAND_TYPE 520 1720 810 10,
     mkBand ''160m'' SW_BAND_TYPE 1800 3500 1900 1,
     mkBand ''80m '' SW_BAND_TYPE 3500 4500 3700 1,
     mkBand ''60m '' SW_BAND_TYPE 4500 5500 4850 5,
     mkBand ''49m '' SW_BAND_TYPE 5600 6300 6000 5,
     mkBand ''41m '' SW_BAND_TYPE 6800 7800 7100 5,
     mkBand ''31m '' SW_BAND_TYPE 9200 10000 9600 5,
     mkBand ''30m '' SW_BAND_TYPE 10000 11000 10100 1,
     mkBand ''25m '' SW_BAND_TYPE 11200 12500 11940 5,
     mkBand ''22m '' SW_BAND_TYPE 13400 13900 13600 5,
     mkBand ''20m '' SW_BAND_TYPE 14000 14500 14200 1,
     mkBand ''19m '' SW_BAND_TYPE 15000 15900 15300 5,
     mkBand ''18m '' SW_BAND_TYPE 17200 17900 17600 5,
     mkBand ''17m '' SW_BAND_TYPE 18000 18300 18100 1,
     mkBand ''15m '' SW_BAND_TYPE 21000 21900 21200 1,
     mkBand ''12m '' SW_BAND_TYPE 24890 26200 24940 1,
     mkBand ''CB  '' SW_BAND_TYPE 26200 27900 27500 1,
     mkBand ''10m '' SW_BAND_TYPE 28000 30000 28400 1,
     mkBand ''All HF'' SW_BAND_TYPE 100 30000 15000 1]"

text \<open>\<open>lastBand = (sizeof band / sizeof(Band)) - 1\<close>.\<close>

definition lastBand :: int where
  "lastBand = int (length band_init) - 1"

text \<open>The globals as their initialisers leave them, before start-up runs.\<close>

definition state_init :: state where
  "state_init =
    \<lparr>bfoOn = False, audioMute = False, ssbLoaded = False, fmStereo = True,
     agcIdx = 0, disableAgc = 0, agcNdx = 0, currentBFO = 0, rssi = 0,
     band = band_init, bandIdx = 0, lastSwBand = 7,
     currentFrequency = 0, previousFrequency = 0, currentStep = 1,
     currentBFOStep = 25, bwIdxSSB = 2, bwIdxAM = 1, currentMode = FM,
     bufferAGC = AGC_ON,
     rdsMsg = None, stationName = None, rdsTime = None,
     bufferStatioName = [], bufferRdsMsg = [], bufferRdsTime = [],
     si4735 = [], tft = []\<rparr>"

section \<open>The functions of the sketch\<close>

text \<open>Sending commands to the chip appends them to the log, in order.\<close>

definition chip :: "chip_cmd list \<Rightarrow> state \<Rightarrow> state" where
  "chip cs s = s\<lparr>si4735 := si4735 s @ cs\<rparr>"

text \<open>The table entry of the active band, \<open>band[bandIdx]\<close>.\<close>

definition curBand :: "state \<Rightarrow> Band" where
  "curBand s = band s ! nat (bandIdx s)"

text \<open>
  \<open>showStatus\<close>: three status queries, the frequency display, the AGC query, and the
  AGC label, which reads \<open>AGC ON\<close> exactly when \<open>agcNdx == 0 && agcIdx == 0\<close>.
\<close>

definition showStatus :: "state \<Rightarrow> state" where
  "showStatus s =
     (let s1 = chip [GetStatus, GetCurrentReceivedSignalQuality, GetFrequency] s;
          s2 = chip [GetAutomaticGainControl] s1
      in s2\<lparr>bufferAGC := (if agcNdx s2 = 0 \<and> agcIdx s2 = 0 then AGC_ON else ATT (agcNdx s2))\<rparr>)"

text \<open>
  The two statements that open \<open>bandUp\<close>, \<open>bandDown\<close> and most mode handlers:
  \<open>band[bandIdx].currentFreq = currentFrequency; band[bandIdx].currentStep = currentStep\<close>.
\<close>

definition saveBand :: "state \<Rightarrow> state" where
  "saveBand s =
     s\<lparr>band := (band s)[nat (bandIdx s) :=
          (curBand s)\<lparr>currentFreq := currentFrequency s, currentStepB := currentStep s\<rparr>]\<rparr>"

definition loadSSB :: "state \<Rightarrow> state" where
  "loadSSB s =
     (let s1 = chip [Reset, QueryLibraryId, PatchPowerUp, SetI2CFastMode, DownloadPatch,
                     SetI2CStandardMode] s;
          s2 = chip [SetSSBConfig (bwIdxSSB s1) 1 0 0 0 1] s1
      in s2\<lparr>ssbLoaded := True\<rparr>)"

definition useBand :: "state \<Rightarrow> state" where
  "useBand s =
     (let b = curBand s;
          s1 =
            (if bandType b = FM_BAND_TYPE then
               (let t1 = s\<lparr>currentMode := FM\<rparr>;
                    t2 = chip [SetTuneFrequencyAntennaCapacitor 0,
                               SetFM (minimumFreq b) (maximumFreq b) (currentFreq b) (currentStepB b),
                               SetFMDeEmphasis 1,
                               SetSeekFmLimits (minimumFreq b) (maximumFreq b)] t1;
                    t3 = t2\<lparr>bfoOn := False, ssbLoaded := False\<rparr>
                in chip [SetRdsConfig 1 2 2 2 2] t3)
             else
               (let t1 =
                      (if bandType b = MW_BAND_TYPE \<or> bandType b = LW_BAND_TYPE
                       then chip [SetTuneFrequencyAntennaCapacitor 0] s
                       else chip [SetTuneFrequencyAntennaCapacitor 1] (s\<lparr>lastSwBand := bandIdx s\<rparr>));
                    t2 =
                      (if ssbLoaded t1 then
                         chip [SetSSB (minimumFreq b) (maximumFreq b) (currentFreq b) (currentStepB b)
                                 (currentMode t1),
                               SetSSBAutomaticVolumeControl 1,
                               SetSsbSoftMuteMaxAttenuation 0] t1
                       else
                         (chip [SetAM (minimumFreq b) (maximumFreq b) (currentFreq b) (currentStepB b),
                                SetAmSoftMuteMaxAttenuation 0] (t1\<lparr>currentMode := AM\<rparr>))
                           \<lparr>bfoOn := False\<rparr>)
                in chip [SetSeekAmLimits (minimumFreq b) (maximumFreq b),
                         SetSeekAmSpacing (if currentStepB b > 10 then 10 else currentStepB b)] t2));
          s2 = chip [SetAutomaticGainControl (disableAgc s1) (agcNdx s1)] s1;
          s3 = s2\<lparr>currentFrequency := currentFreq b, currentStep := currentStepB b\<rparr>
      in showStatus s3)"

definition bandUp :: "state \<Rightarrow> state" where
  "bandUp s =
     (let s1 = saveBand s;
          s2 = (if bandIdx s1 < lastBand then s1\<lparr>bandIdx := bandIdx s1 + 1\<rparr>
                else s1\<lparr>bandIdx := 0\<rparr>)
      in useBand s2)"

definition bandDown :: "state \<Rightarrow> state" where
  "bandDown s =
     (let s1 = saveBand s;
          s2 = (if bandIdx s1 > 0 then s1\<lparr>bandIdx := bandIdx s1 - 1\<rparr>
                else s1\<lparr>bandIdx := lastBand\<rparr>)
      in useBand s2)"

subsection \<open>The button handlers of \<open>loop\<close>\<close>

text \<open>Each definition is the body of one \<open>if (b.justPressed())\<close> block.\<close>

definition on_bAM :: "state \<Rightarrow> state" where
  "on_bAM s =
     (if currentMode s \<noteq> FM then
        useBand (saveBand (s\<lparr>currentMode := AM, ssbLoaded := False, bfoOn := False\<rparr>))
      else s)"

definition on_bFM :: "state \<Rightarrow> state" where
  "on_bFM s =
     (if currentMode s \<noteq> FM then
        useBand ((saveBand s)\<lparr>ssbLoaded := False, bfoOn := False, currentMode := FM, bandIdx := 0\<rparr>)
      else s)"

definition on_bMW :: "state \<Rightarrow> state" where
  "on_bMW s =
     useBand ((saveBand s)\<lparr>ssbLoaded := False, bfoOn := False, currentMode := AM, bandIdx := 2\<rparr>)"

definition on_bSW :: "state \<Rightarrow> state" where
  "on_bSW s =
     useBand ((saveBand s)\<lparr>ssbLoaded := False, bfoOn := False, currentMode := AM,
                            bandIdx := lastSwBand s\<rparr>)"

definition on_bLSB :: "state \<Rightarrow> state" where
  "on_bLSB s =
     (if currentMode s \<noteq> FM then
        (let s1 = (if \<not> ssbLoaded s then loadSSB s else s)
         in useBand (saveBand (s1\<lparr>currentMode := LSB\<rparr>)))
      else s)"

definition on_bUSB :: "state \<Rightarrow> state" where
  "on_bUSB s =
     (if currentMode s \<noteq> FM then
        (let s1 = (if \<not> ssbLoaded s then loadSSB s else s)
         in useBand (saveBand (s1\<lparr>currentMode := USB\<rparr>)))
      else s)"

text \<open>The unrolled AGC ladder, branch by branch.\<close>

definition agcLadder :: "state \<Rightarrow> state" where
  "agcLadder s =
     (if agcIdx s = 0 then s\<lparr>disableAgc := 0, agcNdx := 0, agcIdx := 1\<rparr>
      else if agcIdx s = 1 then s\<lparr>disableAgc := 1, agcNdx := 0, agcIdx := 2\<rparr>
      else if agcIdx s = 2 then s\<lparr>disableAgc := 1, agcNdx := 5, agcIdx := 3\<rparr>
      else if agcIdx s = 3 then s\<lparr>disableAgc := 1, agcNdx := 10, agcIdx := 4\<rparr>
      else if agcIdx s = 4 then s\<lparr>disableAgc := 1, agcNdx := 15, agcIdx := 5\<rparr>
      else if agcIdx s = 5 then s\<lparr>disableAgc := 1, agcNdx := 20, agcIdx := 6\<rparr>
      else if agcIdx s = 6 then s\<lparr>disableAgc := 1, agcNdx := 25, agcIdx := 7\<rparr>
      else if agcIdx s = 7 then s\<lparr>disableAgc := 1, agcNdx := 30, agcIdx := 8\<rparr>
      else if agcIdx s = 8 then s\<lparr>disableAgc := 1, agcNdx := 35, agcIdx := 9\<rparr>
      else if agcIdx s = 9 then s\<lparr>disableAgc := 1, agcNdx := 0, agcIdx := 0\<rparr>
      else s)"

definition on_bAGC :: "state \<Rightarrow> state" where
  "on_bAGC s =
     (let s1 = agcLadder s
      in showStatus (chip [SetAutomaticGainControl (disableAgc s1) (agcNdx s1)] s1))"

definition on_bFilter :: "state \<Rightarrow> state" where
  "on_bFilter s =
     showStatus
       (if currentMode s = LSB \<or> currentMode s = USB then
          (let s1 = s\<lparr>bwIdxSSB := bwIdxSSB s + 1\<rparr>;
               s2 = (if bwIdxSSB s1 > 5 then s1\<lparr>bwIdxSSB := 0\<rparr> else s1);
               s3 = chip [SetSSBAudioBandwidth (bwIdxSSB s2)] s2
           in if bwIdxSSB s3 = 0 \<or> bwIdxSSB s3 = 4 \<or> bwIdxSSB s3 = 5
              then chip [SetSBBSidebandCutoffFilter 0] s3
              else chip [SetSBBSidebandCutoffFilter 1] s3)
        else if currentMode s = AM then
          (let s1 = s\<lparr>bwIdxAM := bwIdxAM s + 1\<rparr>;
               s2 = (if bwIdxAM s1 > 6 then s1\<lparr>bwIdxAM := 0\<rparr> else s1)
           in chip [SetBandwidth (bwIdxAM s2) 1] s2)
        else s)"

text \<open>The step ladder inside the \<open>bStep\<close> handler.\<close>

definition stepLadder :: "state \<Rightarrow> 16 word" where
  "stepLadder s =
     (if currentStep s = 1 then 5
      else if currentStep s = 5 then 10
      else if currentStep s = 10 then 100
      else if currentStep s = 100 \<and> bandIdx s = lastBand then 500
      else 1)"

definition on_bStep :: "state \<Rightarrow> state" where
  "on_bStep s =
     (if currentMode s = FM then
        (let s1 = s\<lparr>fmStereo := \<not> fmStereo s\<rparr>
         in if fmStereo s1 then chip [SetFmStereoOn] s1 else chip [SetFmStereoOff] s1)
      else if bfoOn s \<and> (currentMode s = LSB \<or> currentMode s = USB) then
        s\<lparr>currentBFOStep := (if currentBFOStep s = 25 then 10 else 25)\<rparr>
      else
        (let s1 = s\<lparr>currentStep := stepLadder s\<rparr>;
             s2 = chip [SetFrequencyStep (currentStep s1)] s1;
             s3 = s2\<lparr>band := (band s2)[nat (bandIdx s2) :=
                        (curBand s2)\<lparr>currentStepB := currentStep s2\<rparr>]\<rparr>;
             s4 = chip [SetSeekAmSpacing (if currentStep s3 > 10 then 10 else currentStep s3)] s3
         in showStatus s4))"

text \<open>The block guarded by \<open>digitalRead(ENCODER_PUSH_BUTTON) == LOW\<close>.\<close>

definition on_pushButton :: "state \<Rightarrow> state" where
  "on_pushButton s =
     (if currentMode s = LSB \<or> currentMode s = USB then
        showStatus (s\<lparr>bfoOn := \<not> bfoOn s\<rparr>)
      else s)"

definition on_bVolumeUp :: "state \<Rightarrow> state" where
  "on_bVolumeUp s = chip [VolumeUp] s"

definition on_bVolumeDown :: "state \<Rightarrow> state" where
  "on_bVolumeDown s = chip [VolumeDown] s"

definition on_bAudioMute :: "state \<Rightarrow> state" where
  "on_bAudioMute s =
     (let s1 = s\<lparr>audioMute := \<not> audioMute s\<rparr> in chip [SetAudioMute (audioMute s1)] s1)"

text \<open>
  The encoder block, entered when \<open>encoderCount != 0\<close>. The chip moves the frequency
  itself; \<open>f\<close> is what \<open>getFrequency\<close> then returns.
\<close>

definition on_encoder :: "int \<Rightarrow> 16 word \<Rightarrow> state \<Rightarrow> state" where
  "on_encoder encoderCount f s =
     (if bfoOn s then
        (let s1 = s\<lparr>currentBFO :=
                      (if encoderCount = 1 then currentBFO s + uint (currentBFOStep s)
                       else currentBFO s - uint (currentBFOStep s))\<rparr>
         in chip [SetSSBBfo (currentBFO s1)] s1)
      else
        (let s1 = (if encoderCount = 1 then chip [FrequencyUp] s else chip [FrequencyDown] s)
         in (chip [GetFrequency] s1)\<lparr>currentFrequency := f\<rparr>))"

text \<open>
  \<open>showFrequencySeek\<close> is the progress callback of a seek; the chip calls it with each
  intermediate frequency \<open>fs\<close>, and \<open>f\<close> is the frequency read when the seek is over.
\<close>

definition showFrequencySeek :: "16 word \<Rightarrow> state \<Rightarrow> state" where
  "showFrequencySeek freq s = s\<lparr>currentFrequency := freq, previousFrequency := freq\<rparr>"

definition on_bSeek :: "seek_dir \<Rightarrow> 16 word list \<Rightarrow> 16 word \<Rightarrow> state \<Rightarrow> state" where
  "on_bSeek d fs f s =
     (let s1 = fold showFrequencySeek fs (chip [SeekStationProgress d] s);
          s2 = (chip [GetFrequency] s1)\<lparr>currentFrequency := f\<rparr>
      in showStatus s2)"

text \<open>The RSSI block, entered when its timing gate is open; \<open>aux\<close> is the chip's reading.\<close>

definition on_rssi :: "8 word \<Rightarrow> state \<Rightarrow> state" where
  "on_rssi aux s =
     (let s1 = chip [GetCurrentReceivedSignalQuality] s
      in if rssi s1 \<noteq> aux then s1\<lparr>rssi := aux\<rparr> else s1)"

subsection \<open>RDS\<close>

text \<open>
  \<open>printText\<close> draws the new text over the old one and then copies it into the buffer
  that holds the old one. The three \<open>showRDS...\<close> functions return without drawing
  when \<open>strcmp\<close> finds the buffer equal to the string behind the pointer; \<open>strcmp\<close>
  reads through the pointer.
\<close>

definition showRDSMsg :: "state \<Rightarrow> error + state" where
  "showRDSMsg s =
     (case rdsMsg s of
        None \<Rightarrow> Inl NullPointerRead
      | Some m \<Rightarrow>
          if bufferRdsMsg s = m then Inr s
          else Inr (s\<lparr>tft := tft s @ [PrintText 55 85 m], bufferRdsMsg := m\<rparr>))"

definition showRDSStation :: "state \<Rightarrow> error + state" where
  "showRDSStation s =
     (case stationName s of
        None \<Rightarrow> Inl NullPointerRead
      | Some m \<Rightarrow>
          if bufferStatioName s = m then Inr s
          else Inr (s\<lparr>tft := tft s @ [PrintText 55 60 m], bufferStatioName := m\<rparr>))"

definition showRDSTime :: "state \<Rightarrow> error + state" where
  "showRDSTime s =
     (case rdsTime s of
        None \<Rightarrow> Inl NullPointerRead
      | Some m \<Rightarrow>
          if bufferRdsTime s = m then Inr s
          else Inr (s\<lparr>tft := tft s @ [PrintText 150 60 m], bufferRdsTime := m\<rparr>))"

text \<open>Sequencing of steps that may fault: the first fault ends the run.\<close>

definition andThen :: "error + state \<Rightarrow> (state \<Rightarrow> error + state) \<Rightarrow> error + state" where
  "andThen r f = (case r of Inl e \<Rightarrow> Inl e | Inr s \<Rightarrow> f s)"

text \<open>What the chip library answers to the RDS queries of one \<open>checkRDS\<close> call.\<close>

record rds_in =
  rdsReceived :: bool
  rdsSync :: bool
  rdsSyncFound :: bool
  rdsText2A :: "string option"
  rdsText0A :: "string option"
  rdsTimeStr :: "string option"

definition checkRDS :: "rds_in \<Rightarrow> state \<Rightarrow> error + state" where
  "checkRDS r s =
     (let s1 = chip [GetRdsStatus] s
      in if rdsReceived r \<and> rdsSync r \<and> rdsSyncFound r then
           (let s2 = s1\<lparr>rdsMsg := rdsText2A r, stationName := rdsText0A r, rdsTime := rdsTimeStr r\<rparr>
            in andThen (andThen (if rdsMsg s2 \<noteq> None then showRDSMsg s2 else Inr s2)
                                (\<lambda>s3. if stationName s3 \<noteq> None then showRDSStation s3 else Inr s3))
                       (\<lambda>s4. if rdsTime s4 \<noteq> None then showRDSTime s4 else Inr s4))
         else Inr s1)"

text \<open>
  The chained assignment
  \<open>bufferStatioName[0] = bufferRdsMsg[0] = rdsTime[0] = bufferRdsTime[0] = rdsMsg[0] = stationName[0] = '\0'\<close>
  stores from right to left. Three of its six stores go through the global pointers.
\<close>

definition clearRDS :: "state \<Rightarrow> error + state" where
  "clearRDS s =
     (case stationName s of
        None \<Rightarrow> Inl NullPointerWrite
      | Some _ \<Rightarrow>
          (case rdsMsg s of
             None \<Rightarrow> Inl NullPointerWrite
           | Some _ \<Rightarrow>
               (case rdsTime s of
                  None \<Rightarrow> Inl NullPointerWrite
                | Some _ \<Rightarrow>
                    Inr (s\<lparr>stationName := Some [], rdsMsg := Some [], bufferRdsTime := [],
                           rdsTime := Some [], bufferRdsMsg := [], bufferStatioName := []\<rparr>))))"

text \<open>The last block of \<open>loop\<close>: \<open>if (currentMode == FM) { ... }\<close>.\<close>

definition loop_rds :: "rds_in \<Rightarrow> state \<Rightarrow> error + state" where
  "loop_rds r s =
     (if currentMode s = FM then
        andThen
          (if currentFrequency s \<noteq> previousFrequency s then
             andThen (andThen (andThen (clearRDS (s\<lparr>tft := tft s @ [FillRect]\<rparr>)) showRDSMsg)
                              showRDSStation)
                     (\<lambda>s1. Inr (s1\<lparr>previousFrequency := currentFrequency s1\<rparr>))
           else Inr s)
          (checkRDS r)
      else Inr s)"

subsection \<open>One pass of \<open>loop\<close>\<close>

text \<open>
  What one pass reads from outside: the encoder counter, the \<open>justPressed\<close> flag of
  every button, the level of the encoder push button, whether the RSSI timing gate is
  open, and the values the chip reports when asked.
\<close>

record tick_in =
  encoderCount :: int
  bNextBand :: bool
  bPreviousBand :: bool
  bVolumeUp :: bool
  bVolumeDown :: bool
  bSeekUp :: bool
  bSeekDown :: bool
  bAudioMute :: bool
  bAM :: bool
  bFM :: bool
  bMW :: bool
  bSW :: bool
  bLSB :: bool
  bUSB :: bool
  bAGC :: bool
  bFilter :: bool
  bStep :: bool
  pushButtonLow :: bool
  rssiElapsed :: bool
  freqTuned :: "16 word"
  seekUpProgress :: "16 word list"
  freqSeekUp :: "16 word"
  seekDownProgress :: "16 word list"
  freqSeekDown :: "16 word"
  currentRSSI :: "8 word"
  rds :: rds_in

text \<open>The guarded blocks of \<open>loop\<close> before the RDS block, in source order.\<close>

definition blocks :: "tick_in \<Rightarrow> (bool \<times> (state \<Rightarrow> state)) list" where
  "blocks i =
    [(encoderCount i \<noteq> 0, on_encoder (encoderCount i) (freqTuned i)),
     (bNextBand i, bandUp),
     (bPreviousBand i, bandDown),
     (bVolumeUp i, on_bVolumeUp),
     (bVolumeDown i, on_bVolumeDown),
     (bSeekUp i, on_bSeek SEEK_UP (seekUpProgress i) (freqSeekUp i)),
     (bSeekDown i, on_bSeek SEEK_DOWN (seekDownProgress i) (freqSeekDown i)),
     (bAudioMute i, on_bAudioMute),
     (bAM i, on_bAM),
     (bFM i, on_bFM),
     (bMW i, on_bMW),
     (bSW i, on_bSW),
     (bLSB i, on_bLSB),
     (bUSB i, on_bUSB),
     (bAGC i, on_bAGC),
     (bFilter i, on_bFilter),
     (bStep i, on_bStep),
     (pushButtonLow i, on_pushButton),
     (rssiElapsed i, on_rssi (currentRSSI i))]"

definition runBlock :: "bool \<times> (state \<Rightarrow> state) \<Rightarrow> state \<Rightarrow> state" where
  "runBlock b s = (if fst b then snd b s else s)"

definition loop :: "tick_in \<Rightarrow> state \<Rightarrow> error + state" where
  "loop i s = loop_rds (rds i) (fold runBlock (blocks i) s)"

text \<open>
  The sketch's start-up function, after the chip was found: \<open>useBand\<close> and then
  \<open>currentFrequency = previousFrequency = si4735.getFrequency()\<close>, which returns \<open>f\<close>.
  Its source name is a reserved word here. The calls that come before \<open>useBand\<close>
  (reference clock, power-up) and the volume setting after it touch no global and are
  not logged; when no chip answers, the source never leaves start-up.
\<close>

definition setup_sketch :: "16 word \<Rightarrow> state" where
  "setup_sketch f = (chip [GetFrequency] (useBand state_init))\<lparr>previousFrequency := f, currentFrequency := f\<rparr>"

text \<open>The states the sketch can be in between two passes of \<open>loop\<close>.\<close>

inductive reachable :: "state \<Rightarrow> bool" where
  reach_setup: "reachable (setup_sketch f)"
| reach_loop: "reachable s \<Longrightarrow> loop i s = Inr s' \<Longrightarrow> reachable s'"

section \<open>Predicates used in the properties\<close>

text \<open>
  The name, type and limits of a band are never assigned after initialisation; only
  \<open>currentFreq\<close> and \<open>currentStep\<close> of an entry are. \<open>wf\<close> says that the table still
  has its initial shape and that both band indices point into it, \<open>lastSwBand\<close> at one
  of the short-wave entries (indices 3 to 20).
\<close>

definition band_static :: "Band \<Rightarrow> string \<times> BandType \<times> 16 word \<times> 16 word" where
  "band_static b = (bandName b, bandType b, minimumFreq b, maximumFreq b)"

definition wf :: "state \<Rightarrow> bool" where
  "wf s \<longleftrightarrow>
     map band_static (band s) = map band_static band_init
     \<and> 0 \<le> bandIdx s \<and> bandIdx s \<le> lastBand
     \<and> 3 \<le> lastSwBand s \<and> lastSwBand s \<le> lastBand"

text \<open>A frequency lies within the limits of a band.\<close>

definition inBand :: "Band \<Rightarrow> 16 word \<Rightarrow> bool" where
  "inBand b f \<longleftrightarrow> minimumFreq b \<le> f \<and> f \<le> maximumFreq b"

text \<open>Every persisted frequency of the table lies within its band.\<close>

definition tableInRange :: "state \<Rightarrow> bool" where
  "tableInRange s \<longleftrightarrow> list_all (\<lambda>b. inBand b (currentFreq b)) (band s)"

text \<open>The BFO is on only in LSB or USB; the patch counts as loaded only in LSB or USB.\<close>

definition bfoInv :: "state \<Rightarrow> bool" where
  "bfoInv s \<longleftrightarrow> (bfoOn s \<longrightarrow> currentMode s = LSB \<or> currentMode s = USB)"

definition ssbInv :: "state \<Rightarrow> bool" where
  "ssbInv s \<longleftrightarrow> (currentMode s = FM \<or> currentMode s = AM \<longrightarrow> \<not> ssbLoaded s)"

text \<open>The chip commands of one \<open>loadSSB\<close> run and of one \<open>showStatus\<close> call.\<close>

definition patchSeq :: "8 word \<Rightarrow> chip_cmd list" where
  "patchSeq bw =
     [Reset, QueryLibraryId, PatchPowerUp, SetI2CFastMode, DownloadPatch, SetI2CStandardMode,
      SetSSBConfig bw 1 0 0 0 1]"

definition statusSeq :: "chip_cmd list" where
  "statusSeq = [GetStatus, GetCurrentReceivedSignalQuality, GetFrequency, GetAutomaticGainControl]"

text \<open>The chip commands of one \<open>useBand\<close> call, in order.\<close>

definition useBandCmds :: "state \<Rightarrow> chip_cmd list" where
  "useBandCmds s =
     (let b = curBand s in
      (if bandType b = FM_BAND_TYPE then
         [SetTuneFrequencyAntennaCapacitor 0,
          SetFM (minimumFreq b) (maximumFreq b) (currentFreq b) (currentStepB b),
          SetFMDeEmphasis 1,
          SetSeekFmLimits (minimumFreq b) (maximumFreq b),
          SetRdsConfig 1 2 2 2 2]
       else
         [SetTuneFrequencyAntennaCapacitor
            (if bandType b = MW_BAND_TYPE \<or> bandType b = LW_BAND_TYPE then 0 else 1)]
         @ (if ssbLoaded s then
              [SetSSB (minimumFreq b) (maximumFreq b) (currentFreq b) (currentStepB b) (currentMode s),
               SetSSBAutomaticVolumeControl 1,
               SetSsbSoftMuteMaxAttenuation 0]
            else
              [SetAM (minimumFreq b) (maximumFreq b) (currentFreq b) (currentStepB b),
               SetAmSoftMuteMaxAttenuation 0])
         @ [SetSeekAmLimits (minimumFreq b) (maximumFreq b),
            SetSeekAmSpacing (if currentStepB b > 10 then 10 else currentStepB b)])
      @ [SetAutomaticGainControl (disableAgc s) (agcNdx s)] @ statusSeq)"

text \<open>The index \<open>bandUp\<close> and \<open>bandDown\<close> move to, wrapping at the ends of the table.\<close>

definition upIdx :: "state \<Rightarrow> int" where
  "upIdx s = (if bandIdx s < lastBand then bandIdx s + 1 else 0)"

definition downIdx :: "state \<Rightarrow> int" where
  "downIdx s = (if bandIdx s > 0 then bandIdx s - 1 else lastBand)"

text \<open>
  The state after start-up on 103.9 MHz, except that the LW entry of the table holds the
  persisted frequency 600, outside its limits 100 to 510.
\<close>

definition staleLW :: state where
  "staleLW = (setup_sketch 10390)\<lparr>band := band_init[1 := mkBand ''LW  '' LW_BAND_TYPE 100 510 600 1]\<rparr>"

text \<open>
  The state as \<open>useBand\<close> leaves it on a short-wave band: the globals agree with the
  table entry, \<open>lastSwBand\<close> is the active band, without the patch the mode is AM with
  the BFO off, and the AGC label is the one \<open>showStatus\<close> prints.
\<close>

definition settled :: "state \<Rightarrow> bool" where
  "settled s \<longleftrightarrow>
     wf s \<and> bandType (curBand s) = SW_BAND_TYPE \<and> lastSwBand s = bandIdx s
     \<and> currentFrequency s = currentFreq (curBand s) \<and> currentStep s = currentStepB (curBand s)
     \<and> (\<not> ssbLoaded s \<longrightarrow> currentMode s = AM \<and> \<not> bfoOn s)
     \<and> bufferAGC s = (if agcNdx s = 0 \<and> agcIdx s = 0 then AGC_ON else ATT (agcNdx s))"

text \<open>What \<open>useBand\<close> sends for a band that is not FM while the patch is loaded.\<close>

definition ssbTuneSeq :: "state \<Rightarrow> Mode \<Rightarrow> chip_cmd list" where
  "ssbTuneSeq s m =
     [SetTuneFrequencyAntennaCapacitor
        (if bandType (curBand s) = MW_BAND_TYPE \<or> bandType (curBand s) = LW_BAND_TYPE then 0 else 1),
      SetSSB (minimumFreq (curBand s)) (maximumFreq (curBand s)) (currentFrequency s) (currentStep s) m,
      SetSSBAutomaticVolumeControl 1,
      SetSsbSoftMuteMaxAttenuation 0,
      SetSeekAmLimits (minimumFreq (curBand s)) (maximumFreq (curBand s)),
      SetSeekAmSpacing (if currentStep s > 10 then 10 else currentStep s),
      SetAutomaticGainControl (disableAgc s) (agcNdx s)] @ statusSeq"

text \<open>
  The part of the state the invariants read: mode, BFO flag, patch flag, table and band
  indices.
\<close>

definition frame :: "state \<Rightarrow> Mode \<times> bool \<times> bool \<times> Band list \<times> int \<times> int" where
  "frame s = (currentMode s, bfoOn s, ssbLoaded s, band s, bandIdx s, lastSwBand s)"

text \<open>
  Between two states the chip log only grew, and the patch flag, if it is set now and
  was not before, was set by a complete patch sequence in between.
\<close>

definition patchedSince :: "state \<Rightarrow> state \<Rightarrow> bool" where
  "patchedSince s s' \<longleftrightarrow>
     (\<exists>cs. si4735 s' = si4735 s @ cs)
     \<and> (ssbLoaded s' \<longrightarrow> ssbLoaded s
          \<or> (\<exists>pre bw post. si4735 s' = si4735 s @ pre @ patchSeq bw @ post))"

text \<open>Every function that a guarded block of \<open>loop\<close> can run.\<close>

inductive handler :: "(state \<Rightarrow> state) \<Rightarrow> bool" where
  "handler (on_encoder e f)"
| "handler bandUp"
| "handler bandDown"
| "handler on_bVolumeUp"
| "handler on_bVolumeDown"
| "handler (on_bSeek d fs f)"
| "handler on_bAudioMute"
| "handler on_bAM"
| "handler on_bFM"
| "handler on_bMW"
| "handler on_bSW"
| "handler on_bLSB"
| "handler on_bUSB"
| "handler on_bAGC"
| "handler on_bFilter"
| "handler on_bStep"
| "handler on_pushButton"
| "handler (on_rssi a)"

text \<open>
  A pass of \<open>loop\<close> in which nothing is pressed, the encoder has not moved, the RSSI
  gate is closed and the chip reports no RDS data.
\<close>

definition idle :: tick_in where
  "idle =
     \<lparr>encoderCount = 0, bNextBand = False, bPreviousBand = False, bVolumeUp = False,
      bVolumeDown = False, bSeekUp = False, bSeekDown = False, bAudioMute = False,
      bAM = False, bFM = False, bMW = False, bSW = False, bLSB = False, bUSB = False,
      bAGC = False, bFilter = False, bStep = False, pushButtonLow = False,
      rssiElapsed = False, freqTuned = 0, seekUpProgress = [], freqSeekUp = 0,
      seekDownProgress = [], freqSeekDown = 0, currentRSSI = 0,
      rds = \<lparr>rdsReceived = False, rdsSync = False, rdsSyncFound = False,
             rdsText2A = None, rdsText0A = None, rdsTimeStr = None\<rparr>\<rparr>"

text \<open>
  The RDS rule in the words of the specification: a field is pushed to the display
  exactly when the chip reports it and it differs from the value cached for it.
  \<open>rdsPushes\<close> lists the pushes of one \<open>checkRDS\<close> call, \<open>cacheAfter\<close> gives a cached
  value after it, and \<open>rdsCleared\<close> is the state once a frequency change in FM has
  blanked the RDS area and emptied the cache and the chip's strings.
\<close>

definition pushIfNew :: "nat \<Rightarrow> nat \<Rightarrow> string option \<Rightarrow> string \<Rightarrow> tft_call list" where
  "pushIfNew col line new cached =
     (case new of None \<Rightarrow> [] | Some m \<Rightarrow> if cached = m then [] else [PrintText col line m])"

definition rdsPushes :: "rds_in \<Rightarrow> state \<Rightarrow> tft_call list" where
  "rdsPushes r s =
     (if rdsReceived r \<and> rdsSync r \<and> rdsSyncFound r then
        pushIfNew 55 85 (rdsText2A r) (bufferRdsMsg s)
        @ pushIfNew 55 60 (rdsText0A r) (bufferStatioName s)
        @ pushIfNew 150 60 (rdsTimeStr r) (bufferRdsTime s)
      else [])"

definition cacheAfter :: "bool \<Rightarrow> string option \<Rightarrow> string \<Rightarrow> string" where
  "cacheAfter fresh new cached = (case new of None \<Rightarrow> cached | Some m \<Rightarrow> if fresh then m else cached)"

definition rdsCleared :: "state \<Rightarrow> state" where
  "rdsCleared s =
     s\<lparr>tft := tft s @ [FillRect], stationName := Some [], rdsMsg := Some [], rdsTime := Some [],
       bufferStatioName := [], bufferRdsMsg := [], bufferRdsTime := [],
       previousFrequency := currentFrequency s\<rparr>"

text \<open>
  An FM state on 103.9 MHz with valid RDS pointers and a filled cache; the same state
  once the frequency has changed and \<open>loop\<close> has not yet seen it; and an RDS answer of
  the chip with all three fields present.
\<close>

definition tunedRds :: state where
  "tunedRds =
     (setup_sketch 10390)
       \<lparr>rdsMsg := Some ''OLD TEXT'', stationName := Some ''STATION1'', rdsTime := Some ''11:59'',
        bufferRdsMsg := ''OLD TEXT'', bufferStatioName := ''STATION1'', bufferRdsTime := ''11:59''\<rparr>"

definition retuned :: state where
  "retuned = tunedRds\<lparr>currentFrequency := 10400\<rparr>"

definition rdsFresh :: rds_in where
  "rdsFresh =
     \<lparr>rdsReceived = True, rdsSync = True, rdsSyncFound = True,
      rdsText2A = Some ''NEW TEXT'', rdsText0A = Some ''STATION2'', rdsTimeStr = Some ''12:00''\<rparr>"

text \<open>
  The ladder as a table: entry \<open>k\<close> is the pair \<open>(disableAgc, agcNdx)\<close> that the branch
  for \<open>agcIdx == k\<close> stores and sends to the chip.
\<close>

definition agcSettings :: "(8 word \<times> 8 word) list" where
  "agcSettings = [(0, 0), (1, 0), (1, 5), (1, 10), (1, 15), (1, 20), (1, 25), (1, 30), (1, 35), (1, 0)]"

text \<open>A state with \<open>agcIdx = 3\<close>, AGC off and attenuation 10.\<close>

definition rung3 :: state where
  "rung3 = state_init\<lparr>agcIdx := 3, disableAgc := 1, agcNdx := 10\<rparr>"

section \<open>The AGC ladder\<close>

lemma agcLadder_si4735: "si4735 (agcLadder s) = si4735 s"
  by (simp add: agcLadder_def)

lemma on_bAGC_fields:
  "agcIdx (on_bAGC s) = agcIdx (agcLadder s)"
  "agcNdx (on_bAGC s) = agcNdx (agcLadder s)"
  "disableAgc (on_bAGC s) = disableAgc (agcLadder s)"
  "bufferAGC (on_bAGC s) =
     (if agcNdx (agcLadder s) = 0 \<and> agcIdx (agcLadder s) = 0 then AGC_ON else ATT (agcNdx (agcLadder s)))"
  "si4735 (on_bAGC s) = si4735 s @ [SetAutomaticGainControl (disableAgc (agcLadder s)) (agcNdx (agcLadder s)),
      GetStatus, GetCurrentReceivedSignalQuality, GetFrequency, GetAutomaticGainControl]"
  by (simp_all add: on_bAGC_def showStatus_def chip_def Let_def agcLadder_si4735)

lemma agcLadder_step:
  "agcIdx s = 0 \<Longrightarrow> agcIdx (agcLadder s) = 1 \<and> agcNdx (agcLadder s) = 0 \<and> disableAgc (agcLadder s) = 0"
  "agcIdx s = 1 \<Longrightarrow> agcIdx (agcLadder s) = 2 \<and> agcNdx (agcLadder s) = 0 \<and> disableAgc (agcLadder s) = 1"
  "agcIdx s = 2 \<Longrightarrow> agcIdx (agcLadder s) = 3 \<and> agcNdx (agcLadder s) = 5 \<and> disableAgc (agcLadder s) = 1"
  "agcIdx s = 3 \<Longrightarrow> agcIdx (agcLadder s) = 4 \<and> agcNdx (agcLadder s) = 10 \<and> disableAgc (agcLadder s) = 1"
  "agcIdx s = 4 \<Longrightarrow> agcIdx (agcLadder s) = 5 \<and> agcNdx (agcLadder s) = 15 \<and> disableAgc (agcLadder s) = 1"
  "agcIdx s = 5 \<Longrightarrow> agcIdx (agcLadder s) = 6 \<and> agcNdx (agcLadder s) = 20 \<and> disableAgc (agcLadder s) = 1"
  "agcIdx s = 6 \<Longrightarrow> agcIdx (agcLadder s) = 7 \<and> agcNdx (agcLadder s) = 25 \<and> disableAgc (agcLadder s) = 1"
  "agcIdx s = 7 \<Longrightarrow> agcIdx (agcLadder s) = 8 \<and> agcNdx (agcLadder s) = 30 \<and> disableAgc (agcLadder s) = 1"
  "agcIdx s = 8 \<Longrightarrow> agcIdx (agcLadder s) = 9 \<and> agcNdx (agcLadder s) = 35 \<and> disableAgc (agcLadder s) = 1"
  "agcIdx s = 9 \<Longrightarrow> agcIdx (agcLadder s) = 0 \<and> agcNdx (agcLadder s) = 0 \<and> disableAgc (agcLadder s) = 1"
  by (simp_all add: agcLadder_def)

lemma on_bAGC_step:
  "agcIdx s = 0 \<Longrightarrow> agcIdx (on_bAGC s) = 1 \<and> agcNdx (on_bAGC s) = 0 \<and> disableAgc (on_bAGC s) = 0"
  "agcIdx s = 1 \<Longrightarrow> agcIdx (on_bAGC s) = 2 \<and> agcNdx (on_bAGC s) = 0 \<and> disableAgc (on_bAGC s) = 1"
  "agcIdx s = 2 \<Longrightarrow> agcIdx (on_bAGC s) = 3 \<and> agcNdx (on_bAGC s) = 5 \<and> disableAgc (on_bAGC s) = 1"
  "agcIdx s = 3 \<Longrightarrow> agcIdx (on_bAGC s) = 4 \<and> agcNdx (on_bAGC s) = 10 \<and> disableAgc (on_bAGC s) = 1"
  "agcIdx s = 4 \<Longrightarrow> agcIdx (on_bAGC s) = 5 \<and> agcNdx (on_bAGC s) = 15 \<and> disableAgc (on_bAGC s) = 1"
  "agcIdx s = 5 \<Longrightarrow> agcIdx (on_bAGC s) = 6 \<and> agcNdx (on_bAGC s) = 20 \<and> disableAgc (on_bAGC s) = 1"
  "agcIdx s = 6 \<Longrightarrow> agcIdx (on_bAGC s) = 7 \<and> agcNdx (on_bAGC s) = 25 \<and> disableAgc (on_bAGC s) = 1"
  "agcIdx s = 7 \<Longrightarrow> agcIdx (on_bAGC s) = 8 \<and> agcNdx (on_bAGC s) = 30 \<and> disableAgc (on_bAGC s) = 1"
  "agcIdx s = 8 \<Longrightarrow> agcIdx (on_bAGC s) = 9 \<and> agcNdx (on_bAGC s) = 35 \<and> disableAgc (on_bAGC s) = 1"
  "agcIdx s = 9 \<Longrightarrow> agcIdx (on_bAGC s) = 0 \<and> agcNdx (on_bAGC s) = 0 \<and> disableAgc (on_bAGC s) = 1"
  by (simp_all only: on_bAGC_fields agcLadder_step simp_thms)

lemma on_bAGC_label:
  "bufferAGC (on_bAGC s) =
     (if agcNdx (on_bAGC s) = 0 \<and> agcIdx (on_bAGC s) = 0 then AGC_ON else ATT (agcNdx (on_bAGC s)))"
  by (simp only: on_bAGC_fields)

lemma on_bAGC_table:
  assumes "k < 10" and "agcIdx s = of_nat k"
  shows "agcIdx (on_bAGC s) = of_nat (Suc k mod 10)
       \<and> (disableAgc (on_bAGC s), agcNdx (on_bAGC s)) = agcSettings ! k"
proof -
  from assms(1) have "k = 0 \<or> k = 1 \<or> k = 2 \<or> k = 3 \<or> k = 4 \<or> k = 5 \<or> k = 6
    \<or> k = 7 \<or> k = 8 \<or> k = 9"
    by (auto simp add: eval_nat_numeral less_Suc_eq)
  then consider "k = 0" | "k = 1" | "k = 2" | "k = 3" | "k = 4" | "k = 5" | "k = 6"
    | "k = 7" | "k = 8" | "k = 9"
    by blast
  then show ?thesis
  proof cases
    case 1
    with assms(2) on_bAGC_step(1) [of s] show ?thesis by (simp add: agcSettings_def)
  next
    case 2
    with assms(2) on_bAGC_step(2) [of s] show ?thesis by (simp add: agcSettings_def)
  next
    case 3
    with assms(2) on_bAGC_step(3) [of s] show ?thesis by (simp add: agcSettings_def)
  next
    case 4
    with assms(2) on_bAGC_step(4) [of s] show ?thesis by (simp add: agcSettings_def)
  next
    case 5
    with assms(2) on_bAGC_step(5) [of s] show ?thesis by (simp add: agcSettings_def)
  next
    case 6
    with assms(2) on_bAGC_step(6) [of s] show ?thesis by (simp add: agcSettings_def)
  next
    case 7
    with assms(2) on_bAGC_step(7) [of s] show ?thesis by (simp add: agcSettings_def)
  next
    case 8
    with assms(2) on_bAGC_step(8) [of s] show ?thesis by (simp add: agcSettings_def)
  next
    case 9
    with assms(2) on_bAGC_step(9) [of s] show ?thesis by (simp add: agcSettings_def)
  next
    case 10
    with assms(2) on_bAGC_step(10) [of s] show ?thesis by (simp add: agcSettings_def)
  qed
qed

lemma on_bAGC_presses:
  assumes "k < 10" and "agcIdx s = of_nat k"
  shows "agcIdx ((on_bAGC ^^ n) s) = of_nat ((k + n) mod 10)
       \<and> (disableAgc ((on_bAGC ^^ Suc n) s), agcNdx ((on_bAGC ^^ Suc n) s)) = agcSettings ! ((k + n) mod 10)"
proof (induction n)
  case 0
  with assms on_bAGC_table [OF assms] show ?case by simp
next
  case (Suc n)
  define t where "t = (on_bAGC ^^ Suc n) s"
  have "agcIdx ((on_bAGC ^^ n) s) = of_nat ((k + n) mod 10)" using Suc by simp
  from on_bAGC_table [OF _ this] have i: "agcIdx t = of_nat (Suc ((k + n) mod 10) mod 10)"
    by (simp add: t_def)
  have m: "Suc ((k + n) mod 10) mod 10 = (k + Suc n) mod 10"
    by (simp add: mod_Suc_eq)
  from i m have i': "agcIdx t = of_nat ((k + Suc n) mod 10)" by simp
  from on_bAGC_table [OF _ i'] have
    "(disableAgc (on_bAGC t), agcNdx (on_bAGC t)) = agcSettings ! ((k + Suc n) mod 10)"
    by simp
  with i' show ?case by (simp add: t_def)
qed

text \<open>
  Claim C1, as the code has it. The branch taken for \<open>agcIdx = k\<close> stores and sends
  entry \<open>k\<close> of the table (AGC on, 0), (off, 0), (off, 5), (off, 10), (off, 15),
  (off, 20), (off, 25), (off, 30), (off, 35), (off, 0) and moves \<open>agcIdx\<close> to
  \<open>(k + 1) mod 10\<close>: \<open>agcIdx\<close> names the branch of the next press, one ahead of the
  setting in force. The settings repeat with period 10. Seven presses after the setting
  (off, 10) was applied, which leaves \<open>agcIdx = 4\<close>, apply (on, 0). Seven presses from
  \<open>agcIdx = 3\<close> bring \<open>agcIdx\<close> back to 0 with attenuation 0, by the branch that keeps
  AGC off.
\<close>

theorem agc_ladder_cycle:
  "(k < 10 \<and> agcIdx s = of_nat k \<longrightarrow>
      agcIdx ((on_bAGC ^^ n) s) = of_nat ((k + n) mod 10)
    \<and> (disableAgc ((on_bAGC ^^ Suc n) s), agcNdx ((on_bAGC ^^ Suc n) s)) = agcSettings ! ((k + n) mod 10)
    \<and> (disableAgc ((on_bAGC ^^ Suc (n + 10)) s), agcNdx ((on_bAGC ^^ Suc (n + 10)) s))
        = (disableAgc ((on_bAGC ^^ Suc n) s), agcNdx ((on_bAGC ^^ Suc n) s)))
   \<and> (agcIdx t = 4 \<longrightarrow>
        disableAgc ((on_bAGC ^^ 7) t) = 0 \<and> agcNdx ((on_bAGC ^^ 7) t) = 0 \<and> agcIdx ((on_bAGC ^^ 7) t) = 1)
   \<and> (agcIdx u = 3 \<longrightarrow>
        disableAgc ((on_bAGC ^^ 7) u) = 1 \<and> agcNdx ((on_bAGC ^^ 7) u) = 0 \<and> agcIdx ((on_bAGC ^^ 7) u) = 0)"
proof -
  have a: "agcIdx ((on_bAGC ^^ n) s) = of_nat ((k + n) mod 10)
    \<and> (disableAgc ((on_bAGC ^^ Suc n) s), agcNdx ((on_bAGC ^^ Suc n) s)) = agcSettings ! ((k + n) mod 10)
    \<and> (disableAgc ((on_bAGC ^^ Suc (n + 10)) s), agcNdx ((on_bAGC ^^ Suc (n + 10)) s))
        = (disableAgc ((on_bAGC ^^ Suc n) s), agcNdx ((on_bAGC ^^ Suc n) s))"
    if h: "k < 10" "agcIdx s = of_nat k"
  proof -
    note p = on_bAGC_presses [OF h, of n] and q = on_bAGC_presses [OF h, of "n + 10"]
    have m: "(k + (n + 10)) mod 10 = (k + n) mod 10" by (simp add: add.assoc [symmetric])
    have "(disableAgc ((on_bAGC ^^ Suc (n + 10)) s), agcNdx ((on_bAGC ^^ Suc (n + 10)) s))
        = (disableAgc ((on_bAGC ^^ Suc n) s), agcNdx ((on_bAGC ^^ Suc n) s))"
      unfolding conjunct2 [OF p] conjunct2 [OF q] m by (rule refl)
    with p show ?thesis by blast
  qed
  have s6: "on_bAGC ^^ 7 = on_bAGC ^^ Suc 6" by (rule arg_cong [where f = "\<lambda>n. on_bAGC ^^ n"]) simp
  have b: "disableAgc ((on_bAGC ^^ 7) t) = 0 \<and> agcNdx ((on_bAGC ^^ 7) t) = 0 \<and> agcIdx ((on_bAGC ^^ 7) t) = 1"
    if "agcIdx t = 4"
  proof -
    have h: "(4::nat) < 10" "agcIdx t = of_nat 4" using that by simp_all
    have "(disableAgc ((on_bAGC ^^ 7) t), agcNdx ((on_bAGC ^^ 7) t)) = agcSettings ! ((4 + 6) mod 10)"
      unfolding s6 using on_bAGC_presses [OF h, of 6] by (rule conjunct2)
    moreover have "agcIdx ((on_bAGC ^^ 7) t) = of_nat ((4 + 7) mod 10)"
      using on_bAGC_presses [OF h, of 7] by (rule conjunct1)
    ultimately show ?thesis by (simp add: agcSettings_def)
  qed
  have c: "disableAgc ((on_bAGC ^^ 7) u) = 1 \<and> agcNdx ((on_bAGC ^^ 7) u) = 0 \<and> agcIdx ((on_bAGC ^^ 7) u) = 0"
    if "agcIdx u = 3"
  proof -
    have h: "(3::nat) < 10" "agcIdx u = of_nat 3" using that by simp_all
    have "(disableAgc ((on_bAGC ^^ 7) u), agcNdx ((on_bAGC ^^ 7) u)) = agcSettings ! ((3 + 6) mod 10)"
      unfolding s6 using on_bAGC_presses [OF h, of 6] by (rule conjunct2)
    moreover have "agcIdx ((on_bAGC ^^ 7) u) = of_nat ((3 + 7) mod 10)"
      using on_bAGC_presses [OF h, of 7] by (rule conjunct1)
    ultimately show ?thesis by (simp add: agcSettings_def)
  qed
  from a b c show ?thesis by blast
qed

lemma presses_from_init:
  "agcIdx ((on_bAGC ^^ n) state_init) = of_nat (n mod 10)"
  "(disableAgc ((on_bAGC ^^ Suc n) state_init), agcNdx ((on_bAGC ^^ Suc n) state_init))
     = agcSettings ! (n mod 10)"
proof -
  have h: "(0::nat) < 10" "agcIdx state_init = of_nat 0" by (simp_all add: state_init_def)
  from on_bAGC_presses [OF h, of n]
  show "agcIdx ((on_bAGC ^^ n) state_init) = of_nat (n mod 10)"
    "(disableAgc ((on_bAGC ^^ Suc n) state_init), agcNdx ((on_bAGC ^^ Suc n) state_init))
     = agcSettings ! (n mod 10)"
    by simp_all
qed

lemma four_presses:
  "agcIdx ((on_bAGC ^^ 4) state_init) = 4"
  "disableAgc ((on_bAGC ^^ 4) state_init) = 1"
  "agcNdx ((on_bAGC ^^ 4) state_init) = 10"
proof -
  have e: "on_bAGC ^^ 4 = on_bAGC ^^ Suc 3" by (rule arg_cong [where f = "\<lambda>n. on_bAGC ^^ n"]) simp
  show "agcIdx ((on_bAGC ^^ 4) state_init) = 4" using presses_from_init(1) [of 4] by simp
  from presses_from_init(2) [of 3]
  show "disableAgc ((on_bAGC ^^ 4) state_init) = 1" "agcNdx ((on_bAGC ^^ 4) state_init) = 10"
    unfolding e by (simp_all add: agcSettings_def)
qed

lemma three_presses:
  "agcIdx ((on_bAGC ^^ 3) state_init) = 3"
  "disableAgc ((on_bAGC ^^ 3) state_init) = 1"
  "agcNdx ((on_bAGC ^^ 3) state_init) = 5"
proof -
  have e: "on_bAGC ^^ 3 = on_bAGC ^^ Suc 2" by (rule arg_cong [where f = "\<lambda>n. on_bAGC ^^ n"]) simp
  show "agcIdx ((on_bAGC ^^ 3) state_init) = 3" using presses_from_init(1) [of 3] by simp
  from presses_from_init(2) [of 2]
  show "disableAgc ((on_bAGC ^^ 3) state_init) = 1" "agcNdx ((on_bAGC ^^ 3) state_init) = 5"
    unfolding e by (simp_all add: agcSettings_def)
qed

theorem agc_ladder_cycle_witness:
  "(0::nat) < 10 \<and> agcIdx state_init = of_nat 0
   \<and> agcIdx ((on_bAGC ^^ 10) state_init) = 0
   \<and> disableAgc ((on_bAGC ^^ Suc 9) state_init) = 1
   \<and> agcIdx ((on_bAGC ^^ 4) state_init) = 4
   \<and> disableAgc ((on_bAGC ^^ 4) state_init) = 1 \<and> agcNdx ((on_bAGC ^^ 4) state_init) = 10
   \<and> disableAgc ((on_bAGC ^^ 7) ((on_bAGC ^^ 4) state_init)) = 0
   \<and> agcNdx ((on_bAGC ^^ 7) ((on_bAGC ^^ 4) state_init)) = 0
   \<and> agcIdx ((on_bAGC ^^ 7) ((on_bAGC ^^ 4) state_init)) = 1
   \<and> agcIdx ((on_bAGC ^^ 3) state_init) = 3
   \<and> agcIdx ((on_bAGC ^^ 7) ((on_bAGC ^^ 3) state_init)) = 0
   \<and> disableAgc ((on_bAGC ^^ 7) ((on_bAGC ^^ 3) state_init)) = 1"
proof -
  have i: "agcIdx state_init = of_nat 0" by (simp add: state_init_def)
  note w = agc_ladder_cycle [of 0 state_init 10 "(on_bAGC ^^ 4) state_init" "(on_bAGC ^^ 3) state_init"]
    and v = agc_ladder_cycle [of 0 state_init 9 "(on_bAGC ^^ 4) state_init" "(on_bAGC ^^ 3) state_init"]
  from w i have 1: "agcIdx ((on_bAGC ^^ 10) state_init) = 0"
    "disableAgc ((on_bAGC ^^ 7) ((on_bAGC ^^ 4) state_init)) = 0"
    "agcNdx ((on_bAGC ^^ 7) ((on_bAGC ^^ 4) state_init)) = 0"
    "agcIdx ((on_bAGC ^^ 7) ((on_bAGC ^^ 4) state_init)) = 1"
    "agcIdx ((on_bAGC ^^ 7) ((on_bAGC ^^ 3) state_init)) = 0"
    "disableAgc ((on_bAGC ^^ 7) ((on_bAGC ^^ 3) state_init)) = 1"
    by (simp_all del: funpow.simps add: four_presses three_presses)
  from v i have "(disableAgc ((on_bAGC ^^ Suc 9) state_init), agcNdx ((on_bAGC ^^ Suc 9) state_init))
      = agcSettings ! ((0 + 9) mod 10)"
    by (simp del: funpow.simps)
  then have 2: "disableAgc ((on_bAGC ^^ Suc 9) state_init) = 1"
    by (simp del: funpow.simps add: agcSettings_def)
  from 1 2 i show ?thesis
    by (simp del: funpow.simps add: four_presses three_presses)
qed

theorem agc_rung3_counterexample:
  "agcIdx rung3 = 3 \<and> disableAgc rung3 = 1 \<and> agcNdx rung3 = 10
   \<and> agcIdx ((on_bAGC ^^ 7) rung3) = 0 \<and> agcNdx ((on_bAGC ^^ 7) rung3) = 0
   \<and> disableAgc ((on_bAGC ^^ 7) rung3) = 1 \<and> disableAgc ((on_bAGC ^^ 7) rung3) \<noteq> 0
   \<and> agcIdx ((on_bAGC ^^ 3) state_init) = 3 \<and> agcNdx ((on_bAGC ^^ 3) state_init) = 5
   \<and> agcIdx ((on_bAGC ^^ 1) state_init) = 1 \<and> disableAgc ((on_bAGC ^^ 1) state_init) = 0"
proof -
  have h: "(3::nat) < 10" "agcIdx rung3 = of_nat 3" by (simp_all add: rung3_def)
  have e: "on_bAGC ^^ 7 = on_bAGC ^^ Suc 6" by (rule arg_cong [where f = "\<lambda>n. on_bAGC ^^ n"]) simp
  have "agcIdx ((on_bAGC ^^ 7) rung3) = of_nat ((3 + 7) mod 10)"
    using on_bAGC_presses [OF h, of 7] by (rule conjunct1)
  then have 1: "agcIdx ((on_bAGC ^^ 7) rung3) = 0" by simp
  have "(disableAgc ((on_bAGC ^^ 7) rung3), agcNdx ((on_bAGC ^^ 7) rung3)) = agcSettings ! ((3 + 6) mod 10)"
    unfolding e using on_bAGC_presses [OF h, of 6] by (rule conjunct2)
  then have 2: "disableAgc ((on_bAGC ^^ 7) rung3) = 1" "agcNdx ((on_bAGC ^^ 7) rung3) = 0"
    by (simp_all add: agcSettings_def)
  have 3: "agcIdx ((on_bAGC ^^ 1) state_init) = 1" "disableAgc ((on_bAGC ^^ 1) state_init) = 0"
    using on_bAGC_step(1) [of state_init] by (simp_all add: state_init_def)
  have 4: "agcIdx rung3 = 3" "disableAgc rung3 = 1" "agcNdx rung3 = 10"
    by (simp_all add: rung3_def)
  from 1 2 3 4 three_presses show ?thesis by (simp del: funpow.simps)
qed

section \<open>The functions as record updates\<close>

lemma showStatus_eq:
  "showStatus s =
     s\<lparr>bufferAGC := (if agcNdx s = 0 \<and> agcIdx s = 0 then AGC_ON else ATT (agcNdx s)),
       si4735 := si4735 s @ statusSeq\<rparr>"
  by (simp add: showStatus_def chip_def statusSeq_def Let_def)

lemma useBand_FM:
  assumes "bandType (curBand s) = FM_BAND_TYPE"
  shows "useBand s =
     s\<lparr>currentMode := FM, bfoOn := False, ssbLoaded := False,
       currentFrequency := currentFreq (curBand s),
       currentStep := currentStepB (curBand s),
       bufferAGC := (if agcNdx s = 0 \<and> agcIdx s = 0 then AGC_ON else ATT (agcNdx s)),
       si4735 := si4735 s @ useBandCmds s\<rparr>"
  using assms
  by (simp add: useBand_def useBandCmds_def showStatus_eq chip_def Let_def)


lemma useBand_notFM:
  assumes "bandType (curBand s) \<noteq> FM_BAND_TYPE"
  shows "useBand s =
     s\<lparr>currentMode := (if ssbLoaded s then currentMode s else AM),
       bfoOn := (ssbLoaded s \<and> bfoOn s),
       lastSwBand := (if bandType (curBand s) = SW_BAND_TYPE then bandIdx s else lastSwBand s),
       currentFrequency := currentFreq (curBand s),
       currentStep := currentStepB (curBand s),
       bufferAGC := (if agcNdx s = 0 \<and> agcIdx s = 0 then AGC_ON else ATT (agcNdx s)),
       si4735 := si4735 s @ useBandCmds s\<rparr>"
proof (cases "ssbLoaded s")
  case True
  show ?thesis
  proof (cases "bandType (curBand s)")
    case FM_BAND_TYPE
    with assms show ?thesis by simp
  next
    case MW_BAND_TYPE
    with True show ?thesis
      by (simp add: useBand_def useBandCmds_def showStatus_eq chip_def Let_def)
  next
    case SW_BAND_TYPE
    with True show ?thesis
      by (simp add: useBand_def useBandCmds_def showStatus_eq chip_def Let_def)
  next
    case LW_BAND_TYPE
    with True show ?thesis
      by (simp add: useBand_def useBandCmds_def showStatus_eq chip_def Let_def)
  qed
next
  case False
  show ?thesis
  proof (cases "bandType (curBand s)")
    case FM_BAND_TYPE
    with assms show ?thesis by simp
  next
    case MW_BAND_TYPE
    with False show ?thesis
      by (simp add: useBand_def useBandCmds_def showStatus_eq chip_def Let_def)
  next
    case SW_BAND_TYPE
    with False show ?thesis
      by (simp add: useBand_def useBandCmds_def showStatus_eq chip_def Let_def)
  next
    case LW_BAND_TYPE
    with False show ?thesis
      by (simp add: useBand_def useBandCmds_def showStatus_eq chip_def Let_def)
  qed
qed


lemma useBand_eq:
  "useBand s =
     s\<lparr>currentMode := (if bandType (curBand s) = FM_BAND_TYPE then FM
                        else if ssbLoaded s then currentMode s else AM),
       bfoOn := (bandType (curBand s) \<noteq> FM_BAND_TYPE \<and> ssbLoaded s \<and> bfoOn s),
       ssbLoaded := (bandType (curBand s) \<noteq> FM_BAND_TYPE \<and> ssbLoaded s),
       lastSwBand := (if bandType (curBand s) = SW_BAND_TYPE then bandIdx s else lastSwBand s),
       currentFrequency := currentFreq (curBand s),
       currentStep := currentStepB (curBand s),
       bufferAGC := (if agcNdx s = 0 \<and> agcIdx s = 0 then AGC_ON else ATT (agcNdx s)),
       si4735 := si4735 s @ useBandCmds s\<rparr>"
proof (cases "bandType (curBand s) = FM_BAND_TYPE")
  case True
  then show ?thesis by (simp add: useBand_FM)
next
  case False
  then show ?thesis by (simp add: useBand_notFM)
qed

lemma loadSSB_eq:
  "loadSSB s = s\<lparr>ssbLoaded := True, si4735 := si4735 s @ patchSeq (bwIdxSSB s)\<rparr>"
  by (simp add: loadSSB_def chip_def patchSeq_def Let_def)

lemma band_init_length: "length band_init = 21"
  by (simp add: band_init_def)

lemma lastBand_eq: "lastBand = 20"
  by (simp add: lastBand_def band_init_length)

lemma band_init_types:
  "\<forall>i<21. bandType (band_init ! i) =
     (if i = 0 then FM_BAND_TYPE else if i = 1 then LW_BAND_TYPE
      else if i = 2 then MW_BAND_TYPE else SW_BAND_TYPE)"
  by (simp add: eval_nat_numeral All_less_Suc band_init_def mkBand_def)


section \<open>Step cycling\<close>




section \<open>Facts about the band table\<close>

lemma wf_length: "wf s \<Longrightarrow> length (band s) = 21"
proof -
  assume "wf s"
  then have "map band_static (band s) = map band_static band_init" by (simp add: wf_def)
  then have "length (map band_static (band s)) = length (map band_static band_init)" by simp
  then show ?thesis by (simp add: band_init_length)
qed

lemma wf_static:
  assumes "wf s" and "i < 21"
  shows "band_static (band s ! i) = band_static (band_init ! i)"
proof -
  from assms(1) have m: "map band_static (band s) = map band_static band_init"
    by (simp add: wf_def)
  have "band_static (band s ! i) = map band_static (band s) ! i"
    using assms by (simp add: wf_length)
  also have "\<dots> = map band_static band_init ! i" by (simp only: m)
  also have "\<dots> = band_static (band_init ! i)"
    using assms(2) by (simp add: band_init_length)
  finally show ?thesis .
qed

lemma wf_type:
  assumes "wf s" and "i < 21"
  shows "bandType (band s ! i) =
     (if i = 0 then FM_BAND_TYPE else if i = 1 then LW_BAND_TYPE
      else if i = 2 then MW_BAND_TYPE else SW_BAND_TYPE)"
proof -
  have "bandType (band s ! i) = bandType (band_init ! i)"
    using wf_static [OF assms] by (simp add: band_static_def)
  then show ?thesis using band_init_types assms(2) by simp
qed

lemma wf_idx: "wf s \<Longrightarrow> nat (bandIdx s) < 21" "wf s \<Longrightarrow> nat (lastSwBand s) < 21"
  by (auto simp add: wf_def lastBand_eq)

lemma static_update:
  "band_static (b\<lparr>currentFreq := f, currentStepB := st\<rparr>) = band_static b"
  "band_static (b\<lparr>currentStepB := st\<rparr>) = band_static b"
  by (simp_all add: band_static_def)

lemma map_static_update:
  assumes "band_static b' = band_static (xs ! k)"
  shows "map band_static (xs[k := b']) = map band_static xs"
proof (cases "k < length xs")
  case True
  with assms show ?thesis by (simp add: map_update list_update_same_conv)
next
  case False
  then show ?thesis by (simp add: not_less list_update_beyond)
qed

lemma saveBand_wf: "wf s \<Longrightarrow> wf (saveBand s)"
  by (simp add: wf_def saveBand_def curBand_def map_static_update [OF static_update(1)])

lemma saveBand_cur:
  "wf s \<Longrightarrow> band (saveBand s) ! nat (bandIdx s) =
     (curBand s)\<lparr>currentFreq := currentFrequency s, currentStepB := currentStep s\<rparr>"
  by (simp add: saveBand_def wf_length wf_idx)

lemma saveBand_fields:
  "bandIdx (saveBand s) = bandIdx s"
  "lastSwBand (saveBand s) = lastSwBand s"
  "currentMode (saveBand s) = currentMode s"
  "ssbLoaded (saveBand s) = ssbLoaded s"
  "bfoOn (saveBand s) = bfoOn s"
  "si4735 (saveBand s) = si4735 s"
  "currentFrequency (saveBand s) = currentFrequency s"
  "currentStep (saveBand s) = currentStep s"
  "disableAgc (saveBand s) = disableAgc s"
  "agcNdx (saveBand s) = agcNdx s"
  "agcIdx (saveBand s) = agcIdx s"
  by (simp_all add: saveBand_def)

lemma useBand_wf: "wf s \<Longrightarrow> wf (useBand s)"
proof -
  assume w: "wf s"
  have "bandType (curBand s) = SW_BAND_TYPE \<Longrightarrow> 3 \<le> bandIdx s"
    using wf_type [OF w wf_idx(1) [OF w]] w
    by (auto simp add: curBand_def wf_def split: if_splits)
  with w show ?thesis
    by (simp add: useBand_eq wf_def)
qed


lemma curBand_init0: "curBand state_init = mkBand ''FM  '' FM_BAND_TYPE 8400 10800 10390 10"
  by (simp add: curBand_def state_init_def band_init_def)

lemma setup_sketch_fields:
  "currentMode (setup_sketch f) = FM"
  "bandIdx (setup_sketch f) = 0"
  "lastSwBand (setup_sketch f) = 7"
  "band (setup_sketch f) = band_init"
  "\<not> ssbLoaded (setup_sketch f)"
  "\<not> bfoOn (setup_sketch f)"
  "currentFrequency (setup_sketch f) = f"
  "previousFrequency (setup_sketch f) = f"
  "currentStep (setup_sketch f) = 10"
  "rdsMsg (setup_sketch f) = None"
  "stationName (setup_sketch f) = None"
  "rdsTime (setup_sketch f) = None"
  "tft (setup_sketch f) = []"
  "agcIdx (setup_sketch f) = 0"
  "agcNdx (setup_sketch f) = 0"
  "disableAgc (setup_sketch f) = 0"
  by (simp_all add: setup_sketch_def useBand_eq chip_def curBand_init0 mkBand_def)
     (simp_all add: state_init_def)

lemma setup_sketch_wf: "wf (setup_sketch f)"
  by (simp add: wf_def setup_sketch_fields lastBand_eq)

lemma wf_band2:
  assumes "wf s"
  shows "bandType (band s ! 2) = MW_BAND_TYPE"
    and "minimumFreq (band s ! 2) = 520"
    and "maximumFreq (band s ! 2) = 1720"
proof -
  have "band_static (band s ! 2) = band_static (band_init ! 2)"
    using assms by (rule wf_static) simp
  then show "bandType (band s ! 2) = MW_BAND_TYPE" "minimumFreq (band s ! 2) = 520"
    "maximumFreq (band s ! 2) = 1720"
    by (simp_all add: band_static_def band_init_def mkBand_def)
qed

lemma wf_lastSw_type:
  assumes "wf s"
  shows "bandType (band s ! nat (lastSwBand s)) = SW_BAND_TYPE"
  using wf_type [OF assms wf_idx(2) [OF assms]] assms
  by (auto simp add: wf_def split: if_splits)

section \<open>The MW and SW shortcuts\<close>

lemma guarded_in_FM:
  "currentMode s = FM \<Longrightarrow> on_bAM s = s"
  "currentMode s = FM \<Longrightarrow> on_bFM s = s"
  "currentMode s = FM \<Longrightarrow> on_bLSB s = s"
  "currentMode s = FM \<Longrightarrow> on_bUSB s = s"
  by (simp_all add: on_bAM_def on_bFM_def on_bLSB_def on_bUSB_def)

lemma saveBand_setup: "band (saveBand (setup_sketch f)) = band_init[0 := mkBand ''FM  '' FM_BAND_TYPE 8400 10800 f 10]"
  by (simp add: saveBand_def setup_sketch_fields curBand_def) (simp add: band_init_def mkBand_def)

lemma on_bMW_setup:
  "currentMode (on_bMW (setup_sketch f)) = AM"
  "bandIdx (on_bMW (setup_sketch f)) = 2"
  "currentFrequency (on_bMW (setup_sketch f)) = 810"
  "si4735 (on_bMW (setup_sketch f)) =
     si4735 (setup_sketch f) @
     [SetTuneFrequencyAntennaCapacitor 0, SetAM 520 1720 810 10, SetAmSoftMuteMaxAttenuation 0,
      SetSeekAmLimits 520 1720, SetSeekAmSpacing 10, SetAutomaticGainControl 0 0] @ statusSeq"
  by (simp_all add: on_bMW_def useBand_eq useBandCmds_def Let_def curBand_def saveBand_setup
        saveBand_fields setup_sketch_fields)
     (simp_all add: band_init_def mkBand_def)

lemma on_bSW_setup:
  "currentMode (on_bSW (setup_sketch f)) = AM"
  "bandIdx (on_bSW (setup_sketch f)) = 7"
  "currentFrequency (on_bSW (setup_sketch f)) = 7100"
  "currentStep (on_bSW (setup_sketch f)) = 5"
  by (simp_all add: on_bSW_def useBand_eq curBand_def saveBand_setup
        saveBand_fields setup_sketch_fields)
     (simp_all add: band_init_def mkBand_def)

text \<open>
  Claim C2, as the code has it. In FM mode the AM, LSB and USB buttons are guarded by
  \<open>currentMode != FM\<close> and do nothing. The MW and SW shortcuts carry no such guard:
  from FM they store the current frequency and step in the active band's entry, clear
  \<open>ssbLoaded\<close> and \<open>bfoOn\<close>, select band 2 (MW) or band \<open>lastSwBand\<close> (SW), enter AM
  mode with that band's persisted frequency and step, and reprogram the chip with
  \<open>setAM\<close>.
\<close>

theorem shortcuts_in_FM:
  assumes "currentMode s = FM" and "wf s"
  shows "on_bAM s = s \<and> on_bLSB s = s \<and> on_bUSB s = s
    \<and> currentMode (on_bMW s) = AM \<and> bandIdx (on_bMW s) = 2
    \<and> \<not> ssbLoaded (on_bMW s) \<and> \<not> bfoOn (on_bMW s)
    \<and> band (on_bMW s) = band (saveBand s)
    \<and> currentFrequency (on_bMW s) = currentFreq (band (saveBand s) ! 2)
    \<and> currentStep (on_bMW s) = currentStepB (band (saveBand s) ! 2)
    \<and> si4735 (on_bMW s) =
         si4735 s @
         [SetTuneFrequencyAntennaCapacitor 0,
          SetAM 520 1720 (currentFreq (band (saveBand s) ! 2)) (currentStepB (band (saveBand s) ! 2)),
          SetAmSoftMuteMaxAttenuation 0,
          SetSeekAmLimits 520 1720,
          SetSeekAmSpacing (if currentStepB (band (saveBand s) ! 2) > 10 then 10
                            else currentStepB (band (saveBand s) ! 2)),
          SetAutomaticGainControl (disableAgc s) (agcNdx s)] @ statusSeq
    \<and> currentMode (on_bSW s) = AM \<and> bandIdx (on_bSW s) = lastSwBand s
    \<and> \<not> ssbLoaded (on_bSW s) \<and> \<not> bfoOn (on_bSW s)
    \<and> band (on_bSW s) = band (saveBand s)
    \<and> currentFrequency (on_bSW s) = currentFreq (band (saveBand s) ! nat (lastSwBand s))
    \<and> currentStep (on_bSW s) = currentStepB (band (saveBand s) ! nat (lastSwBand s))
    \<and> (\<exists>cs. si4735 (on_bSW s) =
          si4735 s @ SetTuneFrequencyAntennaCapacitor 1
            # SetAM (minimumFreq (band s ! nat (lastSwBand s))) (maximumFreq (band s ! nat (lastSwBand s)))
                (currentFreq (band (saveBand s) ! nat (lastSwBand s)))
                (currentStepB (band (saveBand s) ! nat (lastSwBand s)))
            # cs)"
proof -
  have w: "wf (saveBand s)" using assms(2) by (rule saveBand_wf)
  define m where "m = (saveBand s)\<lparr>ssbLoaded := False, bfoOn := False, currentMode := AM, bandIdx := 2\<rparr>"
  define w' where "w' = (saveBand s)\<lparr>ssbLoaded := False, bfoOn := False, currentMode := AM,
                                    bandIdx := lastSwBand s\<rparr>"
  have cm: "curBand m = band (saveBand s) ! 2" by (simp add: m_def curBand_def)
  have cw: "curBand w' = band (saveBand s) ! nat (lastSwBand s)" by (simp add: w'_def curBand_def)
  note tm = wf_band2 [OF w]
  have tw: "bandType (band (saveBand s) ! nat (lastSwBand s)) = SW_BAND_TYPE"
    using wf_lastSw_type [OF w] by (simp add: saveBand_fields)
  have sw: "band_static (band (saveBand s) ! nat (lastSwBand s)) = band_static (band s ! nat (lastSwBand s))"
    using wf_static [OF w wf_idx(2) [OF assms(2)]] wf_static [OF assms(2) wf_idx(2) [OF assms(2)]]
    by simp
  have mw: "on_bMW s = useBand m" by (simp add: on_bMW_def m_def)
  have sw': "on_bSW s = useBand w'" by (simp add: on_bSW_def w'_def)
  have 1: "currentMode (on_bMW s) = AM \<and> bandIdx (on_bMW s) = 2
    \<and> \<not> ssbLoaded (on_bMW s) \<and> \<not> bfoOn (on_bMW s)
    \<and> band (on_bMW s) = band (saveBand s)
    \<and> currentFrequency (on_bMW s) = currentFreq (band (saveBand s) ! 2)
    \<and> currentStep (on_bMW s) = currentStepB (band (saveBand s) ! 2)"
    by (simp add: mw useBand_eq tm cm) (simp add: m_def)
  have 2: "si4735 (on_bMW s) =
         si4735 s @
         [SetTuneFrequencyAntennaCapacitor 0,
          SetAM 520 1720 (currentFreq (band (saveBand s) ! 2)) (currentStepB (band (saveBand s) ! 2)),
          SetAmSoftMuteMaxAttenuation 0,
          SetSeekAmLimits 520 1720,
          SetSeekAmSpacing (if currentStepB (band (saveBand s) ! 2) > 10 then 10
                            else currentStepB (band (saveBand s) ! 2)),
          SetAutomaticGainControl (disableAgc s) (agcNdx s)] @ statusSeq"
    by (simp add: mw useBand_eq useBandCmds_def Let_def tm cm) (simp add: m_def saveBand_fields)
  have 3: "currentMode (on_bSW s) = AM \<and> bandIdx (on_bSW s) = lastSwBand s
    \<and> \<not> ssbLoaded (on_bSW s) \<and> \<not> bfoOn (on_bSW s)
    \<and> band (on_bSW s) = band (saveBand s)
    \<and> currentFrequency (on_bSW s) = currentFreq (band (saveBand s) ! nat (lastSwBand s))
    \<and> currentStep (on_bSW s) = currentStepB (band (saveBand s) ! nat (lastSwBand s))"
    by (simp add: sw' useBand_eq tw cw) (simp add: w'_def)
  have 4: "\<exists>cs. si4735 (on_bSW s) =
          si4735 s @ SetTuneFrequencyAntennaCapacitor 1
            # SetAM (minimumFreq (band s ! nat (lastSwBand s))) (maximumFreq (band s ! nat (lastSwBand s)))
                (currentFreq (band (saveBand s) ! nat (lastSwBand s)))
                (currentStepB (band (saveBand s) ! nat (lastSwBand s)))
            # cs"
    using sw by (simp add: sw' useBand_eq useBandCmds_def Let_def tw cw) (simp add: w'_def saveBand_fields band_static_def)
  from guarded_in_FM [OF assms(1)] 1 2 3 4 show ?thesis by simp
qed

theorem shortcuts_in_FM_witness:
  "currentMode (setup_sketch 10390) = FM \<and> wf (setup_sketch 10390)
   \<and> on_bAM (setup_sketch 10390) = setup_sketch 10390
   \<and> currentMode (on_bMW (setup_sketch 10390)) = AM \<and> bandIdx (on_bMW (setup_sketch 10390)) = 2
   \<and> currentMode (on_bSW (setup_sketch 10390)) = AM \<and> bandIdx (on_bSW (setup_sketch 10390)) = 7"
  using shortcuts_in_FM [OF setup_sketch_fields(1) setup_sketch_wf, of 10390]
  by (simp add: setup_sketch_fields setup_sketch_wf)

theorem shortcuts_in_FM_counterexample:
  "currentMode (setup_sketch 10390) = FM
   \<and> bandIdx (setup_sketch 10390) = 0
   \<and> on_bMW (setup_sketch 10390) \<noteq> setup_sketch 10390
   \<and> on_bSW (setup_sketch 10390) \<noteq> setup_sketch 10390
   \<and> currentMode (on_bMW (setup_sketch 10390)) = AM
   \<and> bandIdx (on_bMW (setup_sketch 10390)) = 2
   \<and> currentFrequency (on_bMW (setup_sketch 10390)) = 810
   \<and> SetAM 520 1720 810 10 \<in> set (si4735 (on_bMW (setup_sketch 10390)))
   \<and> currentMode (on_bSW (setup_sketch 10390)) = AM
   \<and> bandIdx (on_bSW (setup_sketch 10390)) = 7
   \<and> currentFrequency (on_bSW (setup_sketch 10390)) = 7100"
proof -
  have "bandIdx (on_bMW (setup_sketch 10390)) \<noteq> bandIdx (setup_sketch 10390)"
    by (simp add: on_bMW_setup setup_sketch_fields)
  then have 1: "on_bMW (setup_sketch 10390) \<noteq> setup_sketch 10390" by auto
  have "bandIdx (on_bSW (setup_sketch 10390)) \<noteq> bandIdx (setup_sketch 10390)"
    by (simp add: on_bSW_setup setup_sketch_fields)
  then have 2: "on_bSW (setup_sketch 10390) \<noteq> setup_sketch 10390" by auto
  from 1 2 show ?thesis
    by (simp add: on_bMW_setup on_bSW_setup setup_sketch_fields)
qed

section \<open>Band selection and the band limits\<close>

lemma useBand_fields:
  "band (useBand s) = band s"
  "bandIdx (useBand s) = bandIdx s"
  "curBand (useBand s) = curBand s"
  "currentFrequency (useBand s) = currentFreq (curBand s)"
  "currentStep (useBand s) = currentStepB (curBand s)"
  by (simp_all add: useBand_eq curBand_def)

lemma tableInRange_nth:
  "tableInRange s \<Longrightarrow> i < length (band s) \<Longrightarrow> inBand (band s ! i) (currentFreq (band s ! i))"
  by (simp add: tableInRange_def list_all_length)

lemma list_all_update:
  "list_all P xs \<Longrightarrow> P y \<Longrightarrow> list_all P (xs[k := y])"
  using set_update_subset_insert [of xs k y] by (auto simp add: list_all_iff)

lemma saveBand_inRange:
  assumes "tableInRange s" and "inBand (curBand s) (currentFrequency s)"
  shows "tableInRange (saveBand s)"
proof -
  have "inBand ((curBand s)\<lparr>currentFreq := currentFrequency s, currentStepB := currentStep s\<rparr>)
          (currentFreq ((curBand s)\<lparr>currentFreq := currentFrequency s, currentStepB := currentStep s\<rparr>))"
    using assms(2) by (simp add: inBand_def)
  with assms(1) show ?thesis
    unfolding tableInRange_def saveBand_def by (simp add: list_all_update)
qed

text \<open>Selecting band \<open>j\<close> after the outgoing band was saved.\<close>

lemma select_loads:
  assumes "band x = band (saveBand s)"
  shows "currentFrequency (useBand x) = currentFreq (curBand (useBand x))
       \<and> currentStep (useBand x) = currentStepB (curBand (useBand x))
       \<and> band (useBand x) = band (saveBand s)"
  using assms by (simp add: useBand_fields)

lemma select_inRange:
  assumes "band x = band (saveBand s)" and "wf s" and "nat (bandIdx x) < 21"
    and "tableInRange s" and "inBand (curBand s) (currentFrequency s)"
  shows "inBand (curBand (useBand x)) (currentFrequency (useBand x)) \<and> tableInRange (useBand x)"
proof -
  have t: "tableInRange (saveBand s)" using assms(4,5) by (rule saveBand_inRange)
  have l: "length (band (saveBand s)) = 21" using wf_length [OF saveBand_wf [OF assms(2)]] .
  have "inBand (band (saveBand s) ! nat (bandIdx x)) (currentFreq (band (saveBand s) ! nat (bandIdx x)))"
    using t assms(3) l by (simp add: tableInRange_nth)
  moreover have "tableInRange (useBand x)"
    using t assms(1) by (simp add: tableInRange_def useBand_fields)
  ultimately show ?thesis using assms(1) by (simp add: useBand_fields curBand_def)
qed

lemma bandUp_alt: "bandUp s = useBand ((saveBand s)\<lparr>bandIdx := upIdx s\<rparr>)"
  by (simp add: bandUp_def upIdx_def Let_def saveBand_fields)

lemma bandDown_alt: "bandDown s = useBand ((saveBand s)\<lparr>bandIdx := downIdx s\<rparr>)"
  by (simp add: bandDown_def downIdx_def Let_def saveBand_fields)

lemma upIdx_range: "wf s \<Longrightarrow> nat (upIdx s) < 21"
  by (auto simp add: upIdx_def wf_def lastBand_eq)

lemma downIdx_range: "wf s \<Longrightarrow> nat (downIdx s) < 21"
  by (auto simp add: downIdx_def wf_def lastBand_eq)

text \<open>
  Claim C3, as the code has it. Band selection (band up, band down, the MW, SW and FM
  shortcuts) loads the incoming band's persisted frequency exactly as the table holds
  it and leaves the table as \<open>saveBand\<close> wrote it; nothing is clamped. So the loaded
  frequency lies within the limits of the newly active band, and the table stays within
  range, whenever the table was within range and the frequency saved for the outgoing
  band lay within that band.
\<close>

theorem selection_loads_persisted:
  assumes "wf s"
  shows "(currentFrequency (bandUp s) = currentFreq (curBand (bandUp s))
          \<and> band (bandUp s) = band (saveBand s))
       \<and> (currentFrequency (bandDown s) = currentFreq (curBand (bandDown s))
          \<and> band (bandDown s) = band (saveBand s))
       \<and> (currentFrequency (on_bMW s) = currentFreq (curBand (on_bMW s))
          \<and> band (on_bMW s) = band (saveBand s))
       \<and> (currentFrequency (on_bSW s) = currentFreq (curBand (on_bSW s))
          \<and> band (on_bSW s) = band (saveBand s))
       \<and> (currentMode s \<noteq> FM \<longrightarrow>
            currentFrequency (on_bFM s) = currentFreq (curBand (on_bFM s))
          \<and> band (on_bFM s) = band (saveBand s))
       \<and> (tableInRange s \<and> inBand (curBand s) (currentFrequency s) \<longrightarrow>
            inBand (curBand (bandUp s)) (currentFrequency (bandUp s)) \<and> tableInRange (bandUp s)
          \<and> inBand (curBand (bandDown s)) (currentFrequency (bandDown s)) \<and> tableInRange (bandDown s)
          \<and> inBand (curBand (on_bMW s)) (currentFrequency (on_bMW s)) \<and> tableInRange (on_bMW s)
          \<and> inBand (curBand (on_bSW s)) (currentFrequency (on_bSW s)) \<and> tableInRange (on_bSW s)
          \<and> inBand (curBand (on_bFM s)) (currentFrequency (on_bFM s)) \<and> tableInRange (on_bFM s))"
proof -
  have a: "currentFrequency (bandUp s) = currentFreq (curBand (bandUp s))
          \<and> band (bandUp s) = band (saveBand s)"
    using select_loads [of "(saveBand s)\<lparr>bandIdx := upIdx s\<rparr>" s] by (simp add: bandUp_alt)
  have b: "currentFrequency (bandDown s) = currentFreq (curBand (bandDown s))
          \<and> band (bandDown s) = band (saveBand s)"
    using select_loads [of "(saveBand s)\<lparr>bandIdx := downIdx s\<rparr>" s] by (simp add: bandDown_alt)
  have c: "currentFrequency (on_bMW s) = currentFreq (curBand (on_bMW s))
          \<and> band (on_bMW s) = band (saveBand s)"
    using select_loads [of "(saveBand s)\<lparr>ssbLoaded := False, bfoOn := False, currentMode := AM, bandIdx := 2\<rparr>" s]
    by (simp add: on_bMW_def)
  have d: "currentFrequency (on_bSW s) = currentFreq (curBand (on_bSW s))
          \<and> band (on_bSW s) = band (saveBand s)"
    using select_loads [of "(saveBand s)\<lparr>ssbLoaded := False, bfoOn := False, currentMode := AM,
                            bandIdx := lastSwBand s\<rparr>" s]
    by (simp add: on_bSW_def)
  have e: "currentMode s \<noteq> FM \<longrightarrow>
            currentFrequency (on_bFM s) = currentFreq (curBand (on_bFM s))
          \<and> band (on_bFM s) = band (saveBand s)"
    using select_loads [of "(saveBand s)\<lparr>ssbLoaded := False, bfoOn := False, currentMode := FM, bandIdx := 0\<rparr>" s]
    by (simp add: on_bFM_def)
  have f: "inBand (curBand (bandUp s)) (currentFrequency (bandUp s)) \<and> tableInRange (bandUp s)
          \<and> inBand (curBand (bandDown s)) (currentFrequency (bandDown s)) \<and> tableInRange (bandDown s)
          \<and> inBand (curBand (on_bMW s)) (currentFrequency (on_bMW s)) \<and> tableInRange (on_bMW s)
          \<and> inBand (curBand (on_bSW s)) (currentFrequency (on_bSW s)) \<and> tableInRange (on_bSW s)
          \<and> inBand (curBand (on_bFM s)) (currentFrequency (on_bFM s)) \<and> tableInRange (on_bFM s)"
    if r: "tableInRange s" "inBand (curBand s) (currentFrequency s)"
  proof -
    have 1: "inBand (curBand (bandUp s)) (currentFrequency (bandUp s)) \<and> tableInRange (bandUp s)"
      using select_inRange [of "(saveBand s)\<lparr>bandIdx := upIdx s\<rparr>" s] assms r upIdx_range
      by (simp add: bandUp_alt)
    have 2: "inBand (curBand (bandDown s)) (currentFrequency (bandDown s)) \<and> tableInRange (bandDown s)"
      using select_inRange [of "(saveBand s)\<lparr>bandIdx := downIdx s\<rparr>" s] assms r downIdx_range
      by (simp add: bandDown_alt)
    have 3: "inBand (curBand (on_bMW s)) (currentFrequency (on_bMW s)) \<and> tableInRange (on_bMW s)"
      using select_inRange [of "(saveBand s)\<lparr>ssbLoaded := False, bfoOn := False, currentMode := AM, bandIdx := 2\<rparr>" s]
        assms r
      by (simp add: on_bMW_def)
    have 4: "inBand (curBand (on_bSW s)) (currentFrequency (on_bSW s)) \<and> tableInRange (on_bSW s)"
      using select_inRange [of "(saveBand s)\<lparr>ssbLoaded := False, bfoOn := False, currentMode := AM,
                            bandIdx := lastSwBand s\<rparr>" s]
        assms r wf_idx(2)
      by (simp add: on_bSW_def)
    have 5: "inBand (curBand (on_bFM s)) (currentFrequency (on_bFM s)) \<and> tableInRange (on_bFM s)"
    proof (cases "currentMode s = FM")
      case True
      then show ?thesis using r by (simp add: on_bFM_def)
    next
      case False
      then show ?thesis
        using select_inRange [of "(saveBand s)\<lparr>ssbLoaded := False, bfoOn := False, currentMode := FM, bandIdx := 0\<rparr>" s]
          assms r
        by (simp add: on_bFM_def)
    qed
    from 1 2 3 4 5 show ?thesis by simp
  qed
  from a b c d e f show ?thesis by blast
qed

lemma staleLW_up:
  "bandIdx (bandUp staleLW) = 1"
  "curBand (bandUp staleLW) = mkBand ''LW  '' LW_BAND_TYPE 100 510 600 1"
  "currentFrequency (bandUp staleLW) = 600"
  by (simp_all add: bandUp_alt useBand_fields upIdx_def lastBand_eq curBand_def saveBand_def
        staleLW_def setup_sketch_fields)
     (simp_all add: band_init_def mkBand_def)

theorem selection_clamps_counterexample:
  "bandIdx (bandUp staleLW) = 1
   \<and> minimumFreq (curBand (bandUp staleLW)) = 100
   \<and> maximumFreq (curBand (bandUp staleLW)) = 510
   \<and> currentFreq (curBand (bandUp staleLW)) = 600
   \<and> currentFrequency (bandUp staleLW) = 600
   \<and> \<not> inBand (curBand (bandUp staleLW)) (currentFrequency (bandUp staleLW))"
  by (simp add: staleLW_up inBand_def) (simp add: mkBand_def)

section \<open>Band selection round trips\<close>

lemma saveBand_synced:
  assumes "currentFrequency s = currentFreq (curBand s)" and "currentStep s = currentStepB (curBand s)"
  shows "saveBand s = s"
  using assms by (simp add: saveBand_def curBand_def)

lemma wf_bandIdx_update: "wf s \<Longrightarrow> 0 \<le> j \<Longrightarrow> j \<le> 20 \<Longrightarrow> wf (s\<lparr>bandIdx := j\<rparr>)"
  by (simp add: wf_def lastBand_eq)

lemma bandUp_wf: "wf s \<Longrightarrow> wf (bandUp s)"
  unfolding bandUp_alt
  by (rule useBand_wf, rule wf_bandIdx_update, rule saveBand_wf)
     (auto simp add: upIdx_def wf_def lastBand_eq)

lemma bandDown_wf: "wf s \<Longrightarrow> wf (bandDown s)"
  unfolding bandDown_alt
  by (rule useBand_wf, rule wf_bandIdx_update, rule saveBand_wf)
     (auto simp add: downIdx_def wf_def lastBand_eq)

lemma round_trip_core:
  assumes w: "wf s"
  shows "currentFrequency (useBand ((saveBand (useBand ((saveBand s)\<lparr>bandIdx := j\<rparr>)))\<lparr>bandIdx := bandIdx s\<rparr>))
           = currentFrequency s
       \<and> currentStep (useBand ((saveBand (useBand ((saveBand s)\<lparr>bandIdx := j\<rparr>)))\<lparr>bandIdx := bandIdx s\<rparr>))
           = currentStep s"
proof -
  define u where "u = useBand ((saveBand s)\<lparr>bandIdx := j\<rparr>)"
  have su: "saveBand u = u"
    by (rule saveBand_synced) (simp_all add: u_def useBand_fields)
  have bu: "band u = band (saveBand s)" by (simp add: u_def useBand_fields)
  have "curBand (u\<lparr>bandIdx := bandIdx s\<rparr>) = band (saveBand s) ! nat (bandIdx s)"
    by (simp add: curBand_def bu)
  also have "\<dots> = (curBand s)\<lparr>currentFreq := currentFrequency s, currentStepB := currentStep s\<rparr>"
    using w by (rule saveBand_cur)
  finally show ?thesis by (simp add: u_def [symmetric] su useBand_fields)
qed

lemma up_down_idx: "wf s \<Longrightarrow> downIdx (bandUp s) = bandIdx s"
  by (auto simp add: bandUp_alt downIdx_def upIdx_def useBand_fields wf_def lastBand_eq)

lemma down_up_idx: "wf s \<Longrightarrow> upIdx (bandDown s) = bandIdx s"
  by (auto simp add: bandDown_alt downIdx_def upIdx_def useBand_fields wf_def lastBand_eq)

lemma round_trip_up_down:
  assumes "wf s"
  shows "bandIdx (bandDown (bandUp s)) = bandIdx s
       \<and> currentFrequency (bandDown (bandUp s)) = currentFrequency s
       \<and> currentStep (bandDown (bandUp s)) = currentStep s"
proof -
  have i: "bandIdx (bandDown (bandUp s)) = bandIdx s"
    using up_down_idx [OF assms] by (simp add: bandDown_alt [of "bandUp s"] useBand_fields)
  have "bandDown (bandUp s) =
        useBand ((saveBand (useBand ((saveBand s)\<lparr>bandIdx := upIdx s\<rparr>)))\<lparr>bandIdx := bandIdx s\<rparr>)"
    using up_down_idx [OF assms] by (simp add: bandDown_alt [of "bandUp s"]) (simp add: bandUp_alt)
  then show ?thesis using round_trip_core [OF assms, of "upIdx s"] i by simp
qed

lemma round_trip_down_up:
  assumes "wf s"
  shows "bandIdx (bandUp (bandDown s)) = bandIdx s
       \<and> currentFrequency (bandUp (bandDown s)) = currentFrequency s
       \<and> currentStep (bandUp (bandDown s)) = currentStep s"
proof -
  have i: "bandIdx (bandUp (bandDown s)) = bandIdx s"
    using down_up_idx [OF assms] by (simp add: bandUp_alt [of "bandDown s"] useBand_fields)
  have "bandUp (bandDown s) =
        useBand ((saveBand (useBand ((saveBand s)\<lparr>bandIdx := downIdx s\<rparr>)))\<lparr>bandIdx := bandIdx s\<rparr>)"
    using down_up_idx [OF assms] by (simp add: bandUp_alt [of "bandDown s"]) (simp add: bandDown_alt)
  then show ?thesis using round_trip_core [OF assms, of "downIdx s"] i by simp
qed

lemma settled_move:
  assumes s: "settled s" and j: "3 \<le> j" "j \<le> 20"
  shows "settled (useBand (s\<lparr>bandIdx := j\<rparr>))"
    and "bandIdx (useBand (s\<lparr>bandIdx := j\<rparr>)) = j"
    and "(useBand (s\<lparr>bandIdx := j\<rparr>))
            \<lparr>bandIdx := b, lastSwBand := c, currentFrequency := d, currentStep := e, si4735 := a\<rparr>
         = s\<lparr>bandIdx := b, lastSwBand := c, currentFrequency := d, currentStep := e, si4735 := a\<rparr>"
proof -
  from s have w: "wf s" by (simp add: settled_def)
  have wj: "wf (s\<lparr>bandIdx := j\<rparr>)" using w j by (simp add: wf_bandIdx_update)
  have "nat j < 21" using j by simp
  from wf_type [OF w this] j have t: "bandType (band s ! nat j) = SW_BAND_TYPE"
    by (auto split: if_splits)
  have c: "curBand (s\<lparr>bandIdx := j\<rparr>) = band s ! nat j" by (simp add: curBand_def)
  show "bandIdx (useBand (s\<lparr>bandIdx := j\<rparr>)) = j" by (simp add: useBand_fields)
  show "settled (useBand (s\<lparr>bandIdx := j\<rparr>))"
    using s useBand_wf [OF wj] 
    by (simp add: settled_def useBand_fields c t) (simp add: useBand_eq c t)
  show "(useBand (s\<lparr>bandIdx := j\<rparr>))
            \<lparr>bandIdx := b, lastSwBand := c, currentFrequency := d, currentStep := e, si4735 := a\<rparr>
         = s\<lparr>bandIdx := b, lastSwBand := c, currentFrequency := d, currentStep := e, si4735 := a\<rparr>"
    using s by (cases "ssbLoaded s") (simp_all add: settled_def useBand_eq c t)
qed

lemma settled_idx:
  assumes "settled s"
  shows "3 \<le> bandIdx s" and "bandIdx s \<le> 20"
proof -
  from assms have w: "wf s" and t: "bandType (curBand s) = SW_BAND_TYPE"
    by (simp_all add: settled_def)
  from w show "bandIdx s \<le> 20" by (simp add: wf_def lastBand_eq)
  from wf_type [OF w wf_idx(1) [OF w]] t w show "3 \<le> bandIdx s"
    by (auto simp add: curBand_def wf_def split: if_splits)
qed

lemma bandUp_settled:
  assumes "settled s" and "bandIdx s < 20"
  shows "bandUp s = useBand (s\<lparr>bandIdx := bandIdx s + 1\<rparr>)"
proof -
  have "saveBand s = s" using assms(1) by (simp add: saveBand_synced settled_def)
  then show ?thesis using assms(2) by (simp add: bandUp_alt upIdx_def lastBand_eq)
qed

lemma bandDown_settled:
  assumes "settled s"
  shows "bandDown s = useBand (s\<lparr>bandIdx := bandIdx s - 1\<rparr>)"
proof -
  have "saveBand s = s" using assms(1) by (simp add: saveBand_synced settled_def)
  then show ?thesis using settled_idx(1) [OF assms] by (simp add: bandDown_alt downIdx_def)
qed

lemma ups_settled:
  assumes "settled s" and "bandIdx s + int n \<le> 20"
  shows "settled ((bandUp ^^ n) s) \<and> bandIdx ((bandUp ^^ n) s) = bandIdx s + int n
       \<and> (\<forall>a b c d e. ((bandUp ^^ n) s)
              \<lparr>bandIdx := b, lastSwBand := c, currentFrequency := d, currentStep := e, si4735 := a\<rparr>
            = s\<lparr>bandIdx := b, lastSwBand := c, currentFrequency := d, currentStep := e, si4735 := a\<rparr>)"
  using assms(2)
proof (induction n)
  case 0
  then show ?case using assms(1) by simp
next
  case (Suc n)
  define u where "u = (bandUp ^^ n) s"
  from Suc have ih: "settled u" "bandIdx u = bandIdx s + int n"
    "\<And>a b c d e. u\<lparr>bandIdx := b, lastSwBand := c, currentFrequency := d, currentStep := e, si4735 := a\<rparr>
            = s\<lparr>bandIdx := b, lastSwBand := c, currentFrequency := d, currentStep := e, si4735 := a\<rparr>"
    by (simp_all add: u_def)
  have lt: "bandIdx u < 20" using ih(2) Suc.prems by simp
  have j: "3 \<le> bandIdx u + 1" "bandIdx u + 1 \<le> 20"
    using settled_idx(1) [OF ih(1)] lt by simp_all
  have step: "(bandUp ^^ Suc n) s = useBand (u\<lparr>bandIdx := bandIdx u + 1\<rparr>)"
    using bandUp_settled [OF ih(1) lt] by (simp add: u_def)
  show ?case
    unfolding step
    using settled_move [OF ih(1) j] ih(2,3) by simp
qed

lemma downs_settled:
  assumes "settled s" and "3 \<le> bandIdx s - int n"
  shows "settled ((bandDown ^^ n) s) \<and> bandIdx ((bandDown ^^ n) s) = bandIdx s - int n
       \<and> (\<forall>a b c d e. ((bandDown ^^ n) s)
              \<lparr>bandIdx := b, lastSwBand := c, currentFrequency := d, currentStep := e, si4735 := a\<rparr>
            = s\<lparr>bandIdx := b, lastSwBand := c, currentFrequency := d, currentStep := e, si4735 := a\<rparr>)"
  using assms(2)
proof (induction n)
  case 0
  then show ?case using assms(1) by simp
next
  case (Suc n)
  define u where "u = (bandDown ^^ n) s"
  from Suc have ih: "settled u" "bandIdx u = bandIdx s - int n"
    "\<And>a b c d e. u\<lparr>bandIdx := b, lastSwBand := c, currentFrequency := d, currentStep := e, si4735 := a\<rparr>
            = s\<lparr>bandIdx := b, lastSwBand := c, currentFrequency := d, currentStep := e, si4735 := a\<rparr>"
    by (simp_all add: u_def)
  have j: "3 \<le> bandIdx u - 1" "bandIdx u - 1 \<le> 20"
    using settled_idx(2) [OF ih(1)] ih(2) Suc.prems by simp_all
  have step: "(bandDown ^^ Suc n) s = useBand (u\<lparr>bandIdx := bandIdx u - 1\<rparr>)"
    using bandDown_settled [OF ih(1)] by (simp add: u_def)
  show ?case
    unfolding step
    using settled_move [OF ih(1) j] ih(2,3) by simp
qed

lemma settled_same:
  assumes "settled s" and "settled t" and "bandIdx t = bandIdx s"
    and e: "\<And>a b c d e. t\<lparr>bandIdx := b, lastSwBand := c, currentFrequency := d, currentStep := e, si4735 := a\<rparr>
            = s\<lparr>bandIdx := b, lastSwBand := c, currentFrequency := d, currentStep := e, si4735 := a\<rparr>"
  shows "t\<lparr>si4735 := si4735 s\<rparr> = s"
proof -
  have "band (t\<lparr>bandIdx := 0, lastSwBand := 0, currentFrequency := 0, currentStep := 0, si4735 := []\<rparr>)
      = band (s\<lparr>bandIdx := 0, lastSwBand := 0, currentFrequency := 0, currentStep := 0, si4735 := []\<rparr>)"
    by (simp only: e)
  then have b: "band t = band s" by simp
  have f: "lastSwBand t = lastSwBand s" "currentFrequency t = currentFrequency s"
    "currentStep t = currentStep s"
    using assms(1,2,3) b by (simp_all add: settled_def curBand_def)
  have "t\<lparr>si4735 := si4735 s\<rparr> =
        t\<lparr>bandIdx := bandIdx s, lastSwBand := lastSwBand s, currentFrequency := currentFrequency s,
          currentStep := currentStep s, si4735 := si4735 s\<rparr>"
    using f assms(3) by (cases t) simp
  also have "\<dots> = s\<lparr>bandIdx := bandIdx s, lastSwBand := lastSwBand s, currentFrequency := currentFrequency s,
          currentStep := currentStep s, si4735 := si4735 s\<rparr>"
    by (rule e)
  also have "\<dots> = s" by simp
  finally show ?thesis .
qed

lemma on_bSW_wf: "wf s \<Longrightarrow> wf (on_bSW s)"
  unfolding on_bSW_def
  using saveBand_wf [of s]
  by (intro useBand_wf) (auto simp add: wf_def saveBand_fields)

lemma on_bMW_wf: "wf s \<Longrightarrow> wf (on_bMW s)"
  unfolding on_bMW_def
  using saveBand_wf [of s]
  by (intro useBand_wf) (auto simp add: wf_def saveBand_fields lastBand_eq)

lemma on_bFM_wf:
  assumes "wf s"
  shows "wf (on_bFM s)"
proof (cases "currentMode s = FM")
  case True
  then show ?thesis using assms by (simp add: on_bFM_def)
next
  case False
  have "wf ((saveBand s)\<lparr>ssbLoaded := False, bfoOn := False, currentMode := FM, bandIdx := 0\<rparr>)"
    using saveBand_wf [OF assms] by (simp add: wf_def lastBand_eq)
  then show ?thesis using False by (simp add: on_bFM_def useBand_wf)
qed

text \<open>
  While the user only selects bands, the table, once the active band is saved into it,
  never changes again.
\<close>

lemma selection_keeps_table:
  assumes "wf t" and "f \<in> {bandUp, bandDown, on_bFM, on_bMW, on_bSW}"
  shows "wf (f t) \<and> band (saveBand (f t)) = band (saveBand t)"
proof -
  have k: "saveBand (useBand x) = useBand x" for x
    by (rule saveBand_synced) (simp_all add: useBand_fields)
  from assms(2) consider "f = bandUp" | "f = bandDown" | "f = on_bFM" | "f = on_bMW" | "f = on_bSW"
    by auto
  then show ?thesis
  proof cases
    case 1
    then show ?thesis using bandUp_wf [OF assms(1)]
      by (simp add: bandUp_alt k useBand_fields)
  next
    case 2
    then show ?thesis using bandDown_wf [OF assms(1)]
      by (simp add: bandDown_alt k useBand_fields)
  next
    case 3
    then show ?thesis using on_bFM_wf [OF assms(1)]
      by (simp add: on_bFM_def k useBand_fields)
  next
    case 4
    then show ?thesis using on_bMW_wf [OF assms(1)]
      by (simp add: on_bMW_def k useBand_fields)
  next
    case 5
    then show ?thesis using on_bSW_wf [OF assms(1)]
      by (simp add: on_bSW_def k useBand_fields)
  qed
qed

lemma selections_keep_table:
  assumes "set fs \<subseteq> {bandUp, bandDown, on_bFM, on_bMW, on_bSW}" and "wf t"
  shows "wf (fold (\<lambda>f x. f x) fs t) \<and> band (saveBand (fold (\<lambda>f x. f x) fs t)) = band (saveBand t)"
  using assms
proof (induction fs arbitrary: t)
  case Nil
  then show ?case by simp
next
  case (Cons f fs)
  from Cons.prems have f: "f \<in> {bandUp, bandDown, on_bFM, on_bMW, on_bSW}"
    and fs: "set fs \<subseteq> {bandUp, bandDown, on_bFM, on_bMW, on_bSW}" by simp_all
  note st = selection_keeps_table [OF Cons.prems(2) f]
  from Cons.IH [OF fs conjunct1 [OF st]] st show ?case by simp
qed

lemma selections_restore:
  assumes "set fs \<subseteq> {bandUp, bandDown, on_bFM, on_bMW, on_bSW}" and "wf s"
    and "bandIdx (fold (\<lambda>f x. f x) fs s) = bandIdx s"
  shows "currentFrequency (fold (\<lambda>f x. f x) fs s) = currentFrequency s
       \<and> currentStep (fold (\<lambda>f x. f x) fs s) = currentStep s"
proof -
  define t where "t = fold (\<lambda>f x. f x) fs s"
  from selections_keep_table [OF assms(1,2)] have w: "wf t" and b: "band (saveBand t) = band (saveBand s)"
    by (simp_all add: t_def)
  have "band (saveBand t) ! nat (bandIdx t) = band (saveBand s) ! nat (bandIdx s)"
    using assms(3) b by (simp add: t_def)
  then have "(curBand t)\<lparr>currentFreq := currentFrequency t, currentStepB := currentStep t\<rparr>
           = (curBand s)\<lparr>currentFreq := currentFrequency s, currentStepB := currentStep s\<rparr>"
    by (simp add: saveBand_cur [OF w] saveBand_cur [OF assms(2)])
  then have "currentFreq ((curBand t)\<lparr>currentFreq := currentFrequency t, currentStepB := currentStep t\<rparr>)
           = currentFreq ((curBand s)\<lparr>currentFreq := currentFrequency s, currentStepB := currentStep s\<rparr>)"
    and "currentStepB ((curBand t)\<lparr>currentFreq := currentFrequency t, currentStepB := currentStep t\<rparr>)
           = currentStepB ((curBand s)\<lparr>currentFreq := currentFrequency s, currentStepB := currentStep s\<rparr>)"
    by simp_all
  then show ?thesis by (simp add: t_def)
qed

text \<open>
  Claim C4. Whatever sequence of band selections (band up, band down, the FM, MW and SW
  shortcuts) leads back to the band the user started on, with no tuning in between,
  the frequency and step are the ones the user left there; band up followed by band
  down, and band down followed by band up, are such sequences from every band. On a
  short-wave band that \<open>useBand\<close> has set up, \<open>n\<close> presses of band up followed by
  \<open>n\<close> presses of band down, all within the table, give back the whole state, every
  global included; only the log of commands sent to the chip has grown. The scenario of
  the claim is \<open>n = 3\<close> on band 7, "41m".
\<close>

theorem band_round_trip:
  "(wf s \<and> set fs \<subseteq> {bandUp, bandDown, on_bFM, on_bMW, on_bSW}
      \<and> bandIdx (fold (\<lambda>f x. f x) fs s) = bandIdx s \<longrightarrow>
      currentFrequency (fold (\<lambda>f x. f x) fs s) = currentFrequency s
    \<and> currentStep (fold (\<lambda>f x. f x) fs s) = currentStep s)
   \<and> (wf s \<longrightarrow>
      bandIdx (bandDown (bandUp s)) = bandIdx s
    \<and> currentFrequency (bandDown (bandUp s)) = currentFrequency s
    \<and> currentStep (bandDown (bandUp s)) = currentStep s
    \<and> bandIdx (bandUp (bandDown s)) = bandIdx s
    \<and> currentFrequency (bandUp (bandDown s)) = currentFrequency s
    \<and> currentStep (bandUp (bandDown s)) = currentStep s)
   \<and> (settled s \<and> bandIdx s + int n \<le> lastBand \<longrightarrow>
        ((bandDown ^^ n) ((bandUp ^^ n) s))\<lparr>si4735 := si4735 s\<rparr> = s)"
proof -
  have "((bandDown ^^ n) ((bandUp ^^ n) s))\<lparr>si4735 := si4735 s\<rparr> = s"
    if s: "settled s" and n: "bandIdx s + int n \<le> 20"
  proof -
    define u where "u = (bandUp ^^ n) s"
    note up = ups_settled [OF s n, folded u_def]
    from up have su: "settled u" and iu: "bandIdx u = bandIdx s + int n" by simp_all
    have "3 \<le> bandIdx u - int n" using iu settled_idx(1) [OF s] by simp
    note down = downs_settled [OF su this]
    define t where "t = (bandDown ^^ n) u"
    from down have st: "settled t" and it: "bandIdx t = bandIdx s"
      by (simp_all add: t_def iu)
    have "t\<lparr>bandIdx := b, lastSwBand := c, currentFrequency := d, currentStep := e, si4735 := a\<rparr>
            = s\<lparr>bandIdx := b, lastSwBand := c, currentFrequency := d, currentStep := e, si4735 := a\<rparr>"
      for a b c d e
      using up down by (simp add: t_def)
    with s st it have "t\<lparr>si4735 := si4735 s\<rparr> = s" by (rule settled_same)
    then show ?thesis by (simp add: t_def u_def)
  qed
  with round_trip_up_down [of s] round_trip_down_up [of s] selections_restore [of fs s]
  show ?thesis
    by (simp add: lastBand_eq)
qed

lemma on_bSW_setup_more:
  "curBand (on_bSW (setup_sketch f)) = mkBand ''41m '' SW_BAND_TYPE 6800 7800 7100 5"
  "lastSwBand (on_bSW (setup_sketch f)) = 7"
  "\<not> ssbLoaded (on_bSW (setup_sketch f))"
  "\<not> bfoOn (on_bSW (setup_sketch f))"
  "bufferAGC (on_bSW (setup_sketch f)) = AGC_ON"
  "agcNdx (on_bSW (setup_sketch f)) = 0"
  "agcIdx (on_bSW (setup_sketch f)) = 0"
  by (simp_all add: on_bSW_def useBand_eq curBand_def saveBand_setup
        saveBand_fields setup_sketch_fields)
     (simp_all add: band_init_def mkBand_def)

lemma on_bSW_setup_settled: "settled (on_bSW (setup_sketch f))"
  using on_bSW_wf [OF setup_sketch_wf, of f]
  by (simp add: settled_def on_bSW_setup on_bSW_setup_more) (simp add: mkBand_def)

lemma on_bMW_lastSw:
  assumes "wf s"
  shows "lastSwBand (on_bMW s) = lastSwBand s"
  using wf_band2(1) [OF saveBand_wf [OF assms]]
  by (simp add: on_bMW_def useBand_eq curBand_def saveBand_fields)

lemma on_bSW_idx: "bandIdx (on_bSW s) = lastSwBand s"
  by (simp add: on_bSW_def useBand_fields)

theorem band_round_trip_witness:
  "wf (on_bSW (setup_sketch 10390)) \<and> settled (on_bSW (setup_sketch 10390))
   \<and> bandIdx (on_bSW (setup_sketch 10390)) + int 3 \<le> lastBand
   \<and> bandName (curBand (on_bSW (setup_sketch 10390))) = ''41m ''
   \<and> minimumFreq (curBand (on_bSW (setup_sketch 10390))) = 6800
   \<and> maximumFreq (curBand (on_bSW (setup_sketch 10390))) = 7800
   \<and> currentStep (on_bSW (setup_sketch 10390)) = 5
   \<and> currentFrequency (on_bSW (setup_sketch 10390)) = 7100
   \<and> set [on_bMW, on_bSW] \<subseteq> {bandUp, bandDown, on_bFM, on_bMW, on_bSW}
   \<and> bandIdx (fold (\<lambda>f x. f x) [on_bMW, on_bSW] (on_bSW (setup_sketch 10390)))
       = bandIdx (on_bSW (setup_sketch 10390))
   \<and> currentFrequency (fold (\<lambda>f x. f x) [on_bMW, on_bSW] (on_bSW (setup_sketch 10390))) = 7100
   \<and> currentFrequency (bandDown (bandUp (on_bSW (setup_sketch 10390)))) = 7100
   \<and> ((bandDown ^^ 3) ((bandUp ^^ 3) (on_bSW (setup_sketch 10390))))
        \<lparr>si4735 := si4735 (on_bSW (setup_sketch 10390))\<rparr> = on_bSW (setup_sketch 10390)"
proof -
  note w = on_bSW_wf [OF setup_sketch_wf, of 10390]
  have i: "bandIdx (fold (\<lambda>f x. f x) [on_bMW, on_bSW] (on_bSW (setup_sketch 10390)))
       = bandIdx (on_bSW (setup_sketch 10390))"
    by (simp add: on_bSW_idx [of "on_bMW (on_bSW (setup_sketch 10390))"] on_bMW_lastSw [OF w]
          on_bSW_setup on_bSW_setup_more)
  from band_round_trip [of "on_bSW (setup_sketch 10390)" "[on_bMW, on_bSW]" 3]
    w on_bSW_setup_settled [of 10390] i
  show ?thesis
    by (simp add: on_bSW_setup on_bSW_setup_more lastBand_eq) (simp add: mkBand_def)
qed

text \<open>
  The state after the SW shortcut at start-up: outside FM, table and frequency in range.
\<close>

lemma on_bSW_setup_inRange:
  "tableInRange (on_bSW (setup_sketch 10390))"
  "inBand (curBand (on_bSW (setup_sketch 10390))) (currentFrequency (on_bSW (setup_sketch 10390)))"
proof -
  have "band (on_bSW (setup_sketch 10390)) = band (saveBand (setup_sketch 10390))"
    by (simp add: on_bSW_def useBand_fields)
  then show "tableInRange (on_bSW (setup_sketch 10390))"
    by (simp add: tableInRange_def saveBand_setup) (simp add: band_init_def mkBand_def inBand_def)
  show "inBand (curBand (on_bSW (setup_sketch 10390))) (currentFrequency (on_bSW (setup_sketch 10390)))"
    by (simp add: on_bSW_setup on_bSW_setup_more inBand_def) (simp add: mkBand_def)
qed

theorem selection_loads_persisted_witness:
  "wf (on_bSW (setup_sketch 10390)) \<and> currentMode (on_bSW (setup_sketch 10390)) \<noteq> FM
   \<and> tableInRange (on_bSW (setup_sketch 10390))
   \<and> inBand (curBand (on_bSW (setup_sketch 10390))) (currentFrequency (on_bSW (setup_sketch 10390)))
   \<and> currentFrequency (bandUp (on_bSW (setup_sketch 10390)))
       = currentFreq (curBand (bandUp (on_bSW (setup_sketch 10390))))
   \<and> inBand (curBand (bandUp (on_bSW (setup_sketch 10390))))
        (currentFrequency (bandUp (on_bSW (setup_sketch 10390))))
   \<and> tableInRange (bandUp (on_bSW (setup_sketch 10390)))
   \<and> currentFrequency (on_bFM (on_bSW (setup_sketch 10390)))
       = currentFreq (curBand (on_bFM (on_bSW (setup_sketch 10390))))
   \<and> inBand (curBand (on_bFM (on_bSW (setup_sketch 10390))))
        (currentFrequency (on_bFM (on_bSW (setup_sketch 10390))))"
proof -
  have m: "currentMode (on_bSW (setup_sketch 10390)) \<noteq> FM" by (simp add: on_bSW_setup)
  from selection_loads_persisted [OF on_bSW_wf [OF setup_sketch_wf], of 10390]
    on_bSW_setup_inRange on_bSW_wf [OF setup_sketch_wf, of 10390] m
  show ?thesis by blast
qed

section \<open>Loading the SSB patch\<close>

lemma loadSSB_fields:
  "si4735 (loadSSB s) = si4735 s @ patchSeq (bwIdxSSB s)"
  "ssbLoaded (loadSSB s)"
  "currentMode (loadSSB s) = currentMode s"
  "bfoOn (loadSSB s) = bfoOn s"
  "band (loadSSB s) = band s"
  "bandIdx (loadSSB s) = bandIdx s"
  "lastSwBand (loadSSB s) = lastSwBand s"
  "currentFrequency (loadSSB s) = currentFrequency s"
  "currentStep (loadSSB s) = currentStep s"
  "disableAgc (loadSSB s) = disableAgc s"
  "agcNdx (loadSSB s) = agcNdx s"
  by (simp_all add: loadSSB_eq)

lemma ssb_press:
  assumes "wf s" and "bandType (curBand s) \<noteq> FM_BAND_TYPE" and "\<not> ssbLoaded s"
  shows "currentMode (useBand (saveBand ((loadSSB s)\<lparr>currentMode := m\<rparr>))) = m"
    and "ssbLoaded (useBand (saveBand ((loadSSB s)\<lparr>currentMode := m\<rparr>)))"
    and "si4735 (useBand (saveBand ((loadSSB s)\<lparr>currentMode := m\<rparr>)))
           = si4735 s @ patchSeq (bwIdxSSB s) @ ssbTuneSeq s m"
proof -
  define x where "x = saveBand ((loadSSB s)\<lparr>currentMode := m\<rparr>)"
  have wl: "wf ((loadSSB s)\<lparr>currentMode := m\<rparr>)"
    using assms(1) by (simp add: wf_def loadSSB_fields)
  have c: "curBand x = (curBand s)\<lparr>currentFreq := currentFrequency s, currentStepB := currentStep s\<rparr>"
    using saveBand_cur [OF wl]
    by (simp add: x_def curBand_def saveBand_fields loadSSB_fields)
  have f: "ssbLoaded x" "currentMode x = m" "si4735 x = si4735 s @ patchSeq (bwIdxSSB s)"
    "disableAgc x = disableAgc s" "agcNdx x = agcNdx s"
    by (simp_all add: x_def saveBand_fields loadSSB_fields)
  show "currentMode (useBand (saveBand ((loadSSB s)\<lparr>currentMode := m\<rparr>))) = m"
    "ssbLoaded (useBand (saveBand ((loadSSB s)\<lparr>currentMode := m\<rparr>)))"
    unfolding x_def [symmetric] using assms(2) by (simp_all add: useBand_eq c f)
  show "si4735 (useBand (saveBand ((loadSSB s)\<lparr>currentMode := m\<rparr>)))
           = si4735 s @ patchSeq (bwIdxSSB s) @ ssbTuneSeq s m"
    unfolding x_def [symmetric] using assms(2)
    by (simp add: useBand_eq useBandCmds_def Let_def c f ssbTuneSeq_def)
qed

text \<open>
  Claim C6. Pressing LSB or USB outside FM while the patch is not loaded runs
  \<open>loadSSB\<close> first: it sends reset, query library id, patch power-up, fast I2C,
  patch download, standard I2C and the SSB configuration, in this order, sets
  \<open>ssbLoaded\<close> and leaves the mode as it was. Only then is the mode set to LSB or USB,
  the band saved and \<open>useBand\<close> run, so that the \<open>setSSB\<close> tuning command follows the
  whole patch sequence in the chip log, and no BFO command is sent at all.
\<close>

theorem patch_before_ssb:
  assumes "currentMode s \<noteq> FM" and "\<not> ssbLoaded s"
    and "wf s" and "bandType (curBand s) \<noteq> FM_BAND_TYPE"
  shows "si4735 (loadSSB s) =
           si4735 s @ [Reset, QueryLibraryId, PatchPowerUp, SetI2CFastMode, DownloadPatch,
                       SetI2CStandardMode, SetSSBConfig (bwIdxSSB s) 1 0 0 0 1]
       \<and> ssbLoaded (loadSSB s) \<and> currentMode (loadSSB s) = currentMode s
       \<and> on_bLSB s = useBand (saveBand ((loadSSB s)\<lparr>currentMode := LSB\<rparr>))
       \<and> currentMode (on_bLSB s) = LSB \<and> ssbLoaded (on_bLSB s)
       \<and> si4735 (on_bLSB s) =
           si4735 s @ [Reset, QueryLibraryId, PatchPowerUp, SetI2CFastMode, DownloadPatch,
                       SetI2CStandardMode, SetSSBConfig (bwIdxSSB s) 1 0 0 0 1]
             @ ssbTuneSeq s LSB
       \<and> on_bUSB s = useBand (saveBand ((loadSSB s)\<lparr>currentMode := USB\<rparr>))
       \<and> currentMode (on_bUSB s) = USB \<and> ssbLoaded (on_bUSB s)
       \<and> si4735 (on_bUSB s) =
           si4735 s @ [Reset, QueryLibraryId, PatchPowerUp, SetI2CFastMode, DownloadPatch,
                       SetI2CStandardMode, SetSSBConfig (bwIdxSSB s) 1 0 0 0 1]
             @ ssbTuneSeq s USB"
proof -
  have l: "on_bLSB s = useBand (saveBand ((loadSSB s)\<lparr>currentMode := LSB\<rparr>))"
    using assms(1,2) by (simp add: on_bLSB_def)
  have u: "on_bUSB s = useBand (saveBand ((loadSSB s)\<lparr>currentMode := USB\<rparr>))"
    using assms(1,2) by (simp add: on_bUSB_def)
  have p: "patchSeq (bwIdxSSB s) = [Reset, QueryLibraryId, PatchPowerUp, SetI2CFastMode, DownloadPatch,
                       SetI2CStandardMode, SetSSBConfig (bwIdxSSB s) 1 0 0 0 1]"
    by (simp add: patchSeq_def)
  note a = ssb_press [OF assms(3,4,2), of LSB] and b = ssb_press [OF assms(3,4,2), of USB]
  show ?thesis
    unfolding p [symmetric]
    using a b by (simp add: l [symmetric] u [symmetric] loadSSB_fields)
qed

lemma on_bSW_setup_notFM:
  "bandType (curBand (on_bSW (setup_sketch f))) \<noteq> FM_BAND_TYPE"
  by (simp add: on_bSW_setup_more mkBand_def)

theorem patch_before_ssb_witness:
  "currentMode (on_bSW (setup_sketch 10390)) \<noteq> FM
   \<and> \<not> ssbLoaded (on_bSW (setup_sketch 10390))
   \<and> wf (on_bSW (setup_sketch 10390))
   \<and> bandType (curBand (on_bSW (setup_sketch 10390))) \<noteq> FM_BAND_TYPE
   \<and> currentMode (on_bLSB (on_bSW (setup_sketch 10390))) = LSB
   \<and> ssbLoaded (on_bLSB (on_bSW (setup_sketch 10390)))
   \<and> si4735 (on_bLSB (on_bSW (setup_sketch 10390))) =
       si4735 (on_bSW (setup_sketch 10390))
       @ [Reset, QueryLibraryId, PatchPowerUp, SetI2CFastMode, DownloadPatch,
          SetI2CStandardMode, SetSSBConfig 2 1 0 0 0 1]
       @ [SetTuneFrequencyAntennaCapacitor 1, SetSSB 6800 7800 7100 5 LSB,
          SetSSBAutomaticVolumeControl 1, SetSsbSoftMuteMaxAttenuation 0,
          SetSeekAmLimits 6800 7800, SetSeekAmSpacing 5, SetAutomaticGainControl 0 0,
          GetStatus, GetCurrentReceivedSignalQuality, GetFrequency, GetAutomaticGainControl]"
proof -
  have m: "currentMode (on_bSW (setup_sketch 10390)) \<noteq> FM" by (simp add: on_bSW_setup)
  have b: "bwIdxSSB (on_bSW (setup_sketch 10390)) = 2" "disableAgc (on_bSW (setup_sketch 10390)) = 0"
    by (simp_all add: on_bSW_def useBand_eq saveBand_def setup_sketch_def chip_def)
       (simp_all add: state_init_def)
  from patch_before_ssb [OF m on_bSW_setup_more(3) on_bSW_wf [OF setup_sketch_wf] on_bSW_setup_notFM]
  have t: "currentMode (on_bLSB (on_bSW (setup_sketch 10390))) = LSB
     \<and> ssbLoaded (on_bLSB (on_bSW (setup_sketch 10390)))
     \<and> si4735 (on_bLSB (on_bSW (setup_sketch 10390))) =
           si4735 (on_bSW (setup_sketch 10390))
           @ [Reset, QueryLibraryId, PatchPowerUp, SetI2CFastMode, DownloadPatch,
              SetI2CStandardMode, SetSSBConfig (bwIdxSSB (on_bSW (setup_sketch 10390))) 1 0 0 0 1]
           @ ssbTuneSeq (on_bSW (setup_sketch 10390)) LSB"
    by blast
  have v: "ssbTuneSeq (on_bSW (setup_sketch 10390)) LSB =
         [SetTuneFrequencyAntennaCapacitor 1, SetSSB 6800 7800 7100 5 LSB,
          SetSSBAutomaticVolumeControl 1, SetSsbSoftMuteMaxAttenuation 0,
          SetSeekAmLimits 6800 7800, SetSeekAmSpacing 5, SetAutomaticGainControl 0 0,
          GetStatus, GetCurrentReceivedSignalQuality, GetFrequency, GetAutomaticGainControl]"
    by (simp add: ssbTuneSeq_def statusSeq_def b on_bSW_setup on_bSW_setup_more) (simp add: mkBand_def)
  from t show ?thesis
    using m on_bSW_wf [OF setup_sketch_wf, of 10390] on_bSW_setup_notFM [of 10390]
    by (simp add: v b on_bSW_setup_more)
qed

section \<open>Invariants of the polling loop\<close>

lemma fold_seek_frame:
  "frame (fold showFrequencySeek fs s) = frame s"
  "si4735 (fold showFrequencySeek fs s) = si4735 s"
  by (induction fs arbitrary: s) (simp_all add: showFrequencySeek_def frame_def)

lemma frame_simple:
  "frame (on_encoder e f s) = frame s"
  "frame (on_bVolumeUp s) = frame s"
  "frame (on_bVolumeDown s) = frame s"
  "frame (on_bSeek d fs f s) = frame s"
  "frame (on_bAudioMute s) = frame s"
  "frame (on_bAGC s) = frame s"
  "frame (on_bFilter s) = frame s"
  "frame (on_rssi a s) = frame s"
proof -
  show "frame (on_encoder e f s) = frame s"
    by (simp add: on_encoder_def frame_def chip_def Let_def)
  show "frame (on_bVolumeUp s) = frame s" "frame (on_bVolumeDown s) = frame s"
    "frame (on_bAudioMute s) = frame s" "frame (on_rssi a s) = frame s"
    by (simp_all add: on_bVolumeUp_def on_bVolumeDown_def on_bAudioMute_def on_rssi_def
          frame_def chip_def Let_def)
  have "frame (on_bSeek d fs f s) = frame (fold showFrequencySeek fs (chip [SeekStationProgress d] s))"
    by (simp add: on_bSeek_def showStatus_eq chip_def Let_def frame_def)
  then show "frame (on_bSeek d fs f s) = frame s"
    by (simp add: fold_seek_frame) (simp add: frame_def chip_def)
  show "frame (on_bAGC s) = frame s"
    by (simp add: on_bAGC_def showStatus_eq chip_def Let_def frame_def agcLadder_def)
  show "frame (on_bFilter s) = frame s"
    by (simp add: on_bFilter_def showStatus_eq chip_def Let_def frame_def)
qed

lemma log_simple:
  "\<exists>cs. si4735 (on_encoder e f s) = si4735 s @ cs"
  "\<exists>cs. si4735 (on_bVolumeUp s) = si4735 s @ cs"
  "\<exists>cs. si4735 (on_bVolumeDown s) = si4735 s @ cs"
  "\<exists>cs. si4735 (on_bSeek d fs f s) = si4735 s @ cs"
  "\<exists>cs. si4735 (on_bAudioMute s) = si4735 s @ cs"
  "\<exists>cs. si4735 (on_bAGC s) = si4735 s @ cs"
  "\<exists>cs. si4735 (on_bFilter s) = si4735 s @ cs"
  "\<exists>cs. si4735 (on_rssi a s) = si4735 s @ cs"
  "\<exists>cs. si4735 (on_bStep s) = si4735 s @ cs"
  "\<exists>cs. si4735 (on_pushButton s) = si4735 s @ cs"
  "\<exists>cs. si4735 (useBand s) = si4735 s @ cs"
proof -
  show "\<exists>cs. si4735 (on_encoder e f s) = si4735 s @ cs"
    by (simp add: on_encoder_def chip_def Let_def)
  show "\<exists>cs. si4735 (on_bVolumeUp s) = si4735 s @ cs" "\<exists>cs. si4735 (on_bVolumeDown s) = si4735 s @ cs"
    "\<exists>cs. si4735 (on_bAudioMute s) = si4735 s @ cs" "\<exists>cs. si4735 (on_rssi a s) = si4735 s @ cs"
    by (simp_all add: on_bVolumeUp_def on_bVolumeDown_def on_bAudioMute_def on_rssi_def
          chip_def Let_def)
  show "\<exists>cs. si4735 (on_bSeek d fs f s) = si4735 s @ cs"
    by (simp add: on_bSeek_def showStatus_eq chip_def Let_def fold_seek_frame)
  show "\<exists>cs. si4735 (on_bAGC s) = si4735 s @ cs"
    by (simp add: on_bAGC_fields)
  show "\<exists>cs. si4735 (on_bFilter s) = si4735 s @ cs"
    by (simp add: on_bFilter_def showStatus_eq chip_def Let_def)
  show "\<exists>cs. si4735 (on_bStep s) = si4735 s @ cs"
    by (simp add: on_bStep_def showStatus_eq chip_def Let_def)
  show "\<exists>cs. si4735 (on_pushButton s) = si4735 s @ cs"
    by (simp add: on_pushButton_def showStatus_eq)
  show "\<exists>cs. si4735 (useBand s) = si4735 s @ cs"
    by (simp add: useBand_eq)
qed

lemma blocks_handlers: "b \<in> set (blocks i) \<Longrightarrow> handler (snd b)"
  by (auto simp add: blocks_def intro: handler.intros)

lemma frame_inv:
  assumes "frame s' = frame s"
  shows "wf s' = wf s" "bfoInv s' = bfoInv s" "ssbInv s' = ssbInv s" "ssbLoaded s' = ssbLoaded s"
  using assms by (simp_all add: frame_def wf_def bfoInv_def ssbInv_def)

lemma useBand_bfoInv: "bfoInv s \<Longrightarrow> bfoInv (useBand s)"
  by (simp add: useBand_eq bfoInv_def)

lemma useBand_ssbInv: "ssbInv s \<Longrightarrow> ssbInv (useBand s)"
  by (auto simp add: useBand_eq ssbInv_def)

lemma useBand_clears:
  "bandType (curBand s) = FM_BAND_TYPE \<or> \<not> ssbLoaded s \<Longrightarrow>
     (currentMode (useBand s) = FM \<or> currentMode (useBand s) = AM)
     \<and> \<not> ssbLoaded (useBand s) \<and> \<not> bfoOn (useBand s)"
  by (auto simp add: useBand_eq)

lemma useBand_keeps:
  "bandType (curBand s) \<noteq> FM_BAND_TYPE \<Longrightarrow> ssbLoaded s \<Longrightarrow>
     currentMode (useBand s) = currentMode s \<and> ssbLoaded (useBand s) \<and> bfoOn (useBand s) = bfoOn s"
  by (simp add: useBand_eq)

lemma useBand_ssbLoaded: "ssbLoaded (useBand s) \<Longrightarrow> ssbLoaded s"
  by (simp add: useBand_eq)

lemma mode_buttons_clear:
  "currentMode s \<noteq> FM \<Longrightarrow> \<not> ssbLoaded (on_bAM s) \<and> \<not> bfoOn (on_bAM s)"
  "currentMode s \<noteq> FM \<Longrightarrow> \<not> ssbLoaded (on_bFM s) \<and> \<not> bfoOn (on_bFM s)"
  "\<not> ssbLoaded (on_bMW s) \<and> \<not> bfoOn (on_bMW s)"
  "\<not> ssbLoaded (on_bSW s) \<and> \<not> bfoOn (on_bSW s)"
  by (simp_all add: on_bAM_def on_bFM_def on_bMW_def on_bSW_def useBand_eq saveBand_fields)

lemma on_bAM_wf:
  assumes "wf s"
  shows "wf (on_bAM s)"
proof (cases "currentMode s = FM")
  case True
  then show ?thesis using assms by (simp add: on_bAM_def)
next
  case False
  have "wf (s\<lparr>currentMode := AM, ssbLoaded := False, bfoOn := False\<rparr>)"
    using assms by (simp add: wf_def)
  then show ?thesis using False by (simp add: on_bAM_def useBand_wf saveBand_wf)
qed

lemma on_bLSB_wf:
  assumes "wf s"
  shows "wf (on_bLSB s)" and "wf (on_bUSB s)"
proof -
  have "wf ((if \<not> ssbLoaded s then loadSSB s else s)\<lparr>currentMode := m\<rparr>)" for m
    using assms by (simp add: wf_def loadSSB_fields)
  then show "wf (on_bLSB s)" "wf (on_bUSB s)"
    using assms by (simp_all add: on_bLSB_def on_bUSB_def Let_def useBand_wf saveBand_wf)
qed

lemma on_bStep_wf:
  assumes "wf s"
  shows "wf (on_bStep s)"
proof -
  have "map band_static ((band s)[nat (bandIdx s) := (curBand s)\<lparr>currentStepB := x\<rparr>])
        = map band_static (band s)" for x
    by (rule map_static_update) (simp add: curBand_def static_update)
  then show ?thesis
    using assms
    by (simp add: on_bStep_def showStatus_eq chip_def Let_def wf_def curBand_def)
qed

lemma on_pushButton_wf: "wf s \<Longrightarrow> wf (on_pushButton s)"
  by (simp add: on_pushButton_def showStatus_eq wf_def)

lemma handlers_wf:
  assumes "handler h" and "wf s"
  shows "wf (h s)"
  using assms
  by (induction rule: handler.induct)
     (simp_all add: frame_inv(1) [OF frame_simple(1)] frame_inv(1) [OF frame_simple(2)]
        frame_inv(1) [OF frame_simple(3)] frame_inv(1) [OF frame_simple(4)]
        frame_inv(1) [OF frame_simple(5)] frame_inv(1) [OF frame_simple(6)]
        frame_inv(1) [OF frame_simple(7)] frame_inv(1) [OF frame_simple(8)]
        bandUp_wf bandDown_wf on_bAM_wf on_bFM_wf on_bMW_wf on_bSW_wf on_bLSB_wf
        on_bStep_wf on_pushButton_wf)

lemma saveBand_inv:
  "bfoInv (saveBand s) = bfoInv s" "ssbInv (saveBand s) = ssbInv s"
  by (simp_all add: bfoInv_def ssbInv_def saveBand_fields)

lemma bfoInv_upd:
  "bfoInv (s\<lparr>bandIdx := j\<rparr>) = bfoInv s"
  "bfoInv (s\<lparr>currentMode := m, ssbLoaded := False, bfoOn := False\<rparr>)"
  "bfoInv (s\<lparr>ssbLoaded := False, bfoOn := False, currentMode := m, bandIdx := j\<rparr>)"
  "bfoInv (s\<lparr>currentMode := LSB\<rparr>)"
  "bfoInv (s\<lparr>currentMode := USB\<rparr>)"
  by (simp_all add: bfoInv_def)

lemma ssbInv_upd:
  "ssbInv (s\<lparr>bandIdx := j\<rparr>) = ssbInv s"
  "ssbInv (s\<lparr>currentMode := m, ssbLoaded := False, bfoOn := False\<rparr>)"
  "ssbInv (s\<lparr>ssbLoaded := False, bfoOn := False, currentMode := m, bandIdx := j\<rparr>)"
  "ssbInv (s\<lparr>currentMode := LSB\<rparr>)"
  "ssbInv (s\<lparr>currentMode := USB\<rparr>)"
  by (simp_all add: ssbInv_def)

lemma on_bStep_frame:
  "currentMode (on_bStep s) = currentMode s"
  "bfoOn (on_bStep s) = bfoOn s"
  "ssbLoaded (on_bStep s) = ssbLoaded s"
  by (simp_all add: on_bStep_def showStatus_eq chip_def Let_def)

lemma on_pushButton_frame:
  "currentMode (on_pushButton s) = currentMode s"
  "ssbLoaded (on_pushButton s) = ssbLoaded s"
  "bfoOn (on_pushButton s) = (if currentMode s = LSB \<or> currentMode s = USB then \<not> bfoOn s else bfoOn s)"
  by (simp_all add: on_pushButton_def showStatus_eq)

lemma inv_by_flags:
  "\<not> bfoOn x \<Longrightarrow> bfoInv x"
  "currentMode x = LSB \<or> currentMode x = USB \<Longrightarrow> bfoInv x"
  "\<not> ssbLoaded x \<Longrightarrow> ssbInv x"
  "currentMode x = LSB \<or> currentMode x = USB \<Longrightarrow> ssbInv x"
  by (auto simp add: bfoInv_def ssbInv_def)

lemma bandUp_inv:
  "bfoInv s \<Longrightarrow> bfoInv (bandUp s)" "ssbInv s \<Longrightarrow> ssbInv (bandUp s)"
  "bfoInv s \<Longrightarrow> bfoInv (bandDown s)" "ssbInv s \<Longrightarrow> ssbInv (bandDown s)"
proof -
  have b: "bfoInv ((saveBand s)\<lparr>bandIdx := j\<rparr>) = bfoInv s" for j
    by (simp add: bfoInv_def saveBand_fields)
  have c: "ssbInv ((saveBand s)\<lparr>bandIdx := j\<rparr>) = ssbInv s" for j
    by (simp add: ssbInv_def saveBand_fields)
  show "bfoInv s \<Longrightarrow> bfoInv (bandUp s)"
    unfolding bandUp_alt by (rule useBand_bfoInv) (simp add: b)
  show "bfoInv s \<Longrightarrow> bfoInv (bandDown s)"
    unfolding bandDown_alt by (rule useBand_bfoInv) (simp add: b)
  show "ssbInv s \<Longrightarrow> ssbInv (bandUp s)"
    unfolding bandUp_alt by (rule useBand_ssbInv) (simp add: c)
  show "ssbInv s \<Longrightarrow> ssbInv (bandDown s)"
    unfolding bandDown_alt by (rule useBand_ssbInv) (simp add: c)
qed

lemma shortcut_inv:
  "bfoInv (on_bMW s)" "ssbInv (on_bMW s)" "bfoInv (on_bSW s)" "ssbInv (on_bSW s)"
  using mode_buttons_clear(3,4) [of s] by (simp_all add: inv_by_flags)

lemma on_bAM_inv:
  "bfoInv s \<Longrightarrow> bfoInv (on_bAM s)" "ssbInv s \<Longrightarrow> ssbInv (on_bAM s)"
  "bfoInv s \<Longrightarrow> bfoInv (on_bFM s)" "ssbInv s \<Longrightarrow> ssbInv (on_bFM s)"
proof -
  have a: "on_bAM s = s" "on_bFM s = s" if "currentMode s = FM"
    using that by (simp_all add: on_bAM_def on_bFM_def)
  show "bfoInv s \<Longrightarrow> bfoInv (on_bAM s)"
    using mode_buttons_clear(1) [of s] a(1) inv_by_flags(1) [of "on_bAM s"] by (cases "currentMode s = FM") simp_all
  show "ssbInv s \<Longrightarrow> ssbInv (on_bAM s)"
    using mode_buttons_clear(1) [of s] a(1) inv_by_flags(3) [of "on_bAM s"] by (cases "currentMode s = FM") simp_all
  show "bfoInv s \<Longrightarrow> bfoInv (on_bFM s)"
    using mode_buttons_clear(2) [of s] a(2) inv_by_flags(1) [of "on_bFM s"] by (cases "currentMode s = FM") simp_all
  show "ssbInv s \<Longrightarrow> ssbInv (on_bFM s)"
    using mode_buttons_clear(2) [of s] a(2) inv_by_flags(3) [of "on_bFM s"] by (cases "currentMode s = FM") simp_all
qed

lemma on_bLSB_inv:
  "bfoInv s \<Longrightarrow> bfoInv (on_bLSB s)" "ssbInv s \<Longrightarrow> ssbInv (on_bLSB s)"
  "bfoInv s \<Longrightarrow> bfoInv (on_bUSB s)" "ssbInv s \<Longrightarrow> ssbInv (on_bUSB s)"
proof -
  have b: "bfoInv (saveBand (x\<lparr>currentMode := LSB\<rparr>))" "bfoInv (saveBand (x\<lparr>currentMode := USB\<rparr>))"
    "ssbInv (saveBand (x\<lparr>currentMode := LSB\<rparr>))" "ssbInv (saveBand (x\<lparr>currentMode := USB\<rparr>))" for x
    by (simp_all add: inv_by_flags saveBand_fields)
  have l: "on_bLSB s = (if currentMode s \<noteq> FM
              then useBand (saveBand ((if \<not> ssbLoaded s then loadSSB s else s)\<lparr>currentMode := LSB\<rparr>)) else s)"
    by (simp add: on_bLSB_def Let_def)
  have u: "on_bUSB s = (if currentMode s \<noteq> FM
              then useBand (saveBand ((if \<not> ssbLoaded s then loadSSB s else s)\<lparr>currentMode := USB\<rparr>)) else s)"
    by (simp add: on_bUSB_def Let_def)
  show "bfoInv s \<Longrightarrow> bfoInv (on_bLSB s)"
    using useBand_bfoInv [OF b(1)] by (simp only: l split: if_split) simp
  show "bfoInv s \<Longrightarrow> bfoInv (on_bUSB s)"
    using useBand_bfoInv [OF b(2)] by (simp only: u split: if_split) simp
  show "ssbInv s \<Longrightarrow> ssbInv (on_bLSB s)"
    using useBand_ssbInv [OF b(3)] by (simp only: l split: if_split) simp
  show "ssbInv s \<Longrightarrow> ssbInv (on_bUSB s)"
    using useBand_ssbInv [OF b(4)] by (simp only: u split: if_split) simp
qed

lemma on_bStep_inv:
  "bfoInv s \<Longrightarrow> bfoInv (on_bStep s)" "ssbInv s \<Longrightarrow> ssbInv (on_bStep s)"
  "bfoInv s \<Longrightarrow> bfoInv (on_pushButton s)" "ssbInv s \<Longrightarrow> ssbInv (on_pushButton s)"
proof -
  show "bfoInv s \<Longrightarrow> bfoInv (on_bStep s)"
    unfolding bfoInv_def by (simp only: on_bStep_frame)
  show "ssbInv s \<Longrightarrow> ssbInv (on_bStep s)"
    unfolding ssbInv_def by (simp only: on_bStep_frame)
  show "ssbInv s \<Longrightarrow> ssbInv (on_pushButton s)"
    unfolding ssbInv_def by (simp only: on_pushButton_frame)
  show "bfoInv s \<Longrightarrow> bfoInv (on_pushButton s)"
    unfolding bfoInv_def by (cases "currentMode s") (simp_all add: on_pushButton_frame)
qed

lemma handlers_bfoInv:
  assumes "handler h" and "bfoInv s"
  shows "bfoInv (h s)"
  using assms
  by (induction rule: handler.induct)
     (simp_all add: frame_inv(2) [OF frame_simple(1)] frame_inv(2) [OF frame_simple(2)]
        frame_inv(2) [OF frame_simple(3)] frame_inv(2) [OF frame_simple(4)]
        frame_inv(2) [OF frame_simple(5)] frame_inv(2) [OF frame_simple(6)]
        frame_inv(2) [OF frame_simple(7)] frame_inv(2) [OF frame_simple(8)]
        bandUp_inv shortcut_inv on_bAM_inv on_bLSB_inv on_bStep_inv)

lemma handlers_ssbInv:
  assumes "handler h" and "ssbInv s"
  shows "ssbInv (h s)"
  using assms
  by (induction rule: handler.induct)
     (simp_all add: frame_inv(3) [OF frame_simple(1)] frame_inv(3) [OF frame_simple(2)]
        frame_inv(3) [OF frame_simple(3)] frame_inv(3) [OF frame_simple(4)]
        frame_inv(3) [OF frame_simple(5)] frame_inv(3) [OF frame_simple(6)]
        frame_inv(3) [OF frame_simple(7)] frame_inv(3) [OF frame_simple(8)]
        bandUp_inv shortcut_inv on_bAM_inv on_bLSB_inv on_bStep_inv)

lemma patchedSince_refl: "patchedSince s s"
  by (simp add: patchedSince_def)

lemma patchedSince_trans:
  assumes "patchedSince a b" and "patchedSince b c"
  shows "patchedSince a c"
proof -
  from assms obtain c1 c2 where l1: "si4735 b = si4735 a @ c1" and l2: "si4735 c = si4735 b @ c2"
    by (auto simp add: patchedSince_def)
  have log: "\<exists>cs. si4735 c = si4735 a @ cs" using l1 l2 by simp
  have "ssbLoaded a \<or> (\<exists>pre bw post. si4735 c = si4735 a @ pre @ patchSeq bw @ post)"
    if lc: "ssbLoaded c"
  proof -
    from assms(2) lc consider "ssbLoaded b"
      | pre bw post where "si4735 c = si4735 b @ pre @ patchSeq bw @ post"
      by (auto simp add: patchedSince_def)
    then show ?thesis
    proof cases
      case 1
      with assms(1) consider "ssbLoaded a"
        | pre bw post where "si4735 b = si4735 a @ pre @ patchSeq bw @ post"
        by (auto simp add: patchedSince_def)
      then show ?thesis
      proof cases
        case 1
        then show ?thesis by simp
      next
        case 2
        then have "si4735 c = si4735 a @ pre @ patchSeq bw @ (post @ c2)" using l2 by simp
        then show ?thesis by blast
      qed
    next
      case 2
      then have "si4735 c = si4735 a @ (c1 @ pre) @ patchSeq bw @ post" using l1 by simp
      then show ?thesis by blast
    qed
  qed
  with log show ?thesis by (simp add: patchedSince_def)
qed

lemma patchedSince_same:
  assumes "\<exists>cs. si4735 s' = si4735 s @ cs" and "ssbLoaded s' \<Longrightarrow> ssbLoaded s"
  shows "patchedSince s s'"
  using assms by (auto simp add: patchedSince_def)

lemma patchedSince_frame:
  assumes "\<exists>cs. si4735 s' = si4735 s @ cs" and "frame s' = frame s"
  shows "patchedSince s s'"
  using assms(1) frame_inv(4) [OF assms(2)] by (auto simp add: patchedSince_def)

lemma useBand_patched:
  assumes "si4735 x = si4735 s" and "ssbLoaded x \<longrightarrow> ssbLoaded s"
  shows "patchedSince s (useBand x)"
proof (rule patchedSince_same)
  show "\<exists>cs. si4735 (useBand x) = si4735 s @ cs" using assms(1) by (simp add: useBand_eq)
  show "ssbLoaded (useBand x) \<Longrightarrow> ssbLoaded s" using assms(2) by (simp add: useBand_eq)
qed

lemma ssb_button_patched:
  "patchedSince s (useBand (saveBand ((if \<not> ssbLoaded s then loadSSB s else s)\<lparr>currentMode := m\<rparr>)))"
proof (cases "ssbLoaded s")
  case True
  then show ?thesis by (simp add: useBand_patched saveBand_fields)
next
  case False
  have "si4735 (useBand (saveBand ((loadSSB s)\<lparr>currentMode := m\<rparr>)))
        = si4735 s @ [] @ patchSeq (bwIdxSSB s) @ useBandCmds (saveBand ((loadSSB s)\<lparr>currentMode := m\<rparr>))"
    by (simp add: useBand_eq saveBand_fields loadSSB_fields)
  then have "\<exists>pre bw post. si4735 (useBand (saveBand ((loadSSB s)\<lparr>currentMode := m\<rparr>)))
        = si4735 s @ pre @ patchSeq bw @ post"
    by blast
  moreover have "\<exists>cs. si4735 (useBand (saveBand ((loadSSB s)\<lparr>currentMode := m\<rparr>))) = si4735 s @ cs"
    by (simp add: useBand_eq saveBand_fields loadSSB_fields)
  ultimately show ?thesis using False by (simp add: patchedSince_def)
qed

lemma handlers_patched:
  assumes "handler h"
  shows "patchedSince s (h s)"
  using assms
proof (induction rule: handler.induct)
  case (1 e f)
  show ?case by (rule patchedSince_frame) (simp_all add: log_simple frame_simple)
next
  case 2
  show ?case unfolding bandUp_alt by (rule useBand_patched) (simp_all add: saveBand_fields)
next
  case 3
  show ?case unfolding bandDown_alt by (rule useBand_patched) (simp_all add: saveBand_fields)
next
  case 4
  show ?case by (rule patchedSince_frame) (simp_all add: log_simple frame_simple)
next
  case 5
  show ?case by (rule patchedSince_frame) (simp_all add: log_simple frame_simple)
next
  case (6 d fs f)
  show ?case by (rule patchedSince_frame) (simp_all add: log_simple frame_simple)
next
  case 7
  show ?case by (rule patchedSince_frame) (simp_all add: log_simple frame_simple)
next
  case 8
  show ?case
  proof (cases "currentMode s = FM")
    case True
    then show ?thesis by (simp add: on_bAM_def patchedSince_refl)
  next
    case False
    then show ?thesis by (simp add: on_bAM_def useBand_patched saveBand_fields)
  qed
next
  case 9
  show ?case
  proof (cases "currentMode s = FM")
    case True
    then show ?thesis by (simp add: on_bFM_def patchedSince_refl)
  next
    case False
    then show ?thesis by (simp add: on_bFM_def useBand_patched saveBand_fields)
  qed
next
  case 10
  show ?case unfolding on_bMW_def by (rule useBand_patched) (simp_all add: saveBand_fields)
next
  case 11
  show ?case unfolding on_bSW_def by (rule useBand_patched) (simp_all add: saveBand_fields)
next
  case 12
  show ?case
  proof (cases "currentMode s = FM")
    case True
    then show ?thesis by (simp add: on_bLSB_def patchedSince_refl)
  next
    case False
    then show ?thesis using ssb_button_patched [of s LSB] by (simp add: on_bLSB_def Let_def)
  qed
next
  case 13
  show ?case
  proof (cases "currentMode s = FM")
    case True
    then show ?thesis by (simp add: on_bUSB_def patchedSince_refl)
  next
    case False
    then show ?thesis using ssb_button_patched [of s USB] by (simp add: on_bUSB_def Let_def)
  qed
next
  case 14
  show ?case by (rule patchedSince_frame) (simp_all add: log_simple frame_simple)
next
  case 15
  show ?case by (rule patchedSince_frame) (simp_all add: log_simple frame_simple)
next
  case 16
  show ?case by (rule patchedSince_same) (simp_all add: log_simple on_bStep_frame)
next
  case 17
  show ?case by (rule patchedSince_same) (simp_all add: log_simple on_pushButton_frame)
next
  case (18 a)
  show ?case by (rule patchedSince_frame) (simp_all add: log_simple frame_simple)
qed

lemma fold_blocks_inv:
  assumes "\<And>h s. handler h \<Longrightarrow> I s \<Longrightarrow> I (h s)" and "\<forall>b \<in> set bs. handler (snd b)" and "I s"
  shows "I (fold runBlock bs s)"
  using assms(2,3)
proof (induction bs arbitrary: s)
  case Nil
  then show ?case by simp
next
  case (Cons b bs)
  from Cons.prems have "I (runBlock b s)" using assms(1) by (simp add: runBlock_def)
  with Cons show ?case by simp
qed

lemma fold_blocks_patched:
  assumes "\<forall>b \<in> set bs. handler (snd b)"
  shows "patchedSince s (fold runBlock bs s)"
  using assms
proof (induction bs arbitrary: s)
  case Nil
  then show ?case by (simp add: patchedSince_refl)
next
  case (Cons b bs)
  have "patchedSince s (runBlock b s)"
    using Cons.prems by (simp add: runBlock_def patchedSince_refl handlers_patched)
  moreover have "patchedSince (runBlock b s) (fold runBlock bs (runBlock b s))"
    using Cons by simp
  ultimately show ?case using patchedSince_trans by simp
qed

lemma andThen_Inr:
  "andThen r f = Inr s' \<Longrightarrow> \<exists>s1. r = Inr s1 \<and> f s1 = Inr s'"
  by (cases r) (simp_all add: andThen_def)

lemma showRDS_frame:
  "showRDSMsg s = Inr s' \<Longrightarrow> frame s' = frame s \<and> si4735 s' = si4735 s"
  "showRDSStation s = Inr s' \<Longrightarrow> frame s' = frame s \<and> si4735 s' = si4735 s"
  "showRDSTime s = Inr s' \<Longrightarrow> frame s' = frame s \<and> si4735 s' = si4735 s"
  "clearRDS s = Inr s' \<Longrightarrow> frame s' = frame s \<and> si4735 s' = si4735 s"
  by (auto simp add: showRDSMsg_def showRDSStation_def showRDSTime_def clearRDS_def frame_def
        split: option.splits if_splits)

lemma checkRDS_frame:
  assumes "checkRDS r s = Inr s'"
  shows "frame s' = frame s \<and> si4735 s' = si4735 s @ [GetRdsStatus]"
proof (cases "rdsReceived r \<and> rdsSync r \<and> rdsSyncFound r")
  case False
  with assms show ?thesis by (auto simp add: checkRDS_def chip_def frame_def Let_def)
next
  case True
  define s2 where "s2 = (chip [GetRdsStatus] s)\<lparr>rdsMsg := rdsText2A r, stationName := rdsText0A r,
                          rdsTime := rdsTimeStr r\<rparr>"
  have f2: "frame s2 = frame s" "si4735 s2 = si4735 s @ [GetRdsStatus]"
    by (simp_all add: s2_def chip_def frame_def)
  have "checkRDS r s =
    andThen (andThen (if rdsMsg s2 \<noteq> None then showRDSMsg s2 else Inr s2)
                                (\<lambda>s3. if stationName s3 \<noteq> None then showRDSStation s3 else Inr s3))
                       (\<lambda>s4. if rdsTime s4 \<noteq> None then showRDSTime s4 else Inr s4)"
    by (simp only: checkRDS_def Let_def s2_def True simp_thms if_True)
  with assms have
    "andThen (andThen (if rdsMsg s2 \<noteq> None then showRDSMsg s2 else Inr s2)
                                (\<lambda>s3. if stationName s3 \<noteq> None then showRDSStation s3 else Inr s3))
                       (\<lambda>s4. if rdsTime s4 \<noteq> None then showRDSTime s4 else Inr s4) = Inr s'"
    by (simp only:)
  then obtain s4 where a: "andThen (if rdsMsg s2 \<noteq> None then showRDSMsg s2 else Inr s2)
                                (\<lambda>s3. if stationName s3 \<noteq> None then showRDSStation s3 else Inr s3) = Inr s4"
    and b: "(if rdsTime s4 \<noteq> None then showRDSTime s4 else Inr s4) = Inr s'"
    by (blast dest: andThen_Inr)
  from a obtain s3 where c: "(if rdsMsg s2 \<noteq> None then showRDSMsg s2 else Inr s2) = Inr s3"
    and d: "(if stationName s3 \<noteq> None then showRDSStation s3 else Inr s3) = Inr s4"
    by (blast dest: andThen_Inr)
  from c have "frame s3 = frame s2 \<and> si4735 s3 = si4735 s2"
    using showRDS_frame(1) [of s2 s3] by (auto split: if_splits)
  moreover from d have "frame s4 = frame s3 \<and> si4735 s4 = si4735 s3"
    using showRDS_frame(2) [of s3 s4] by (auto split: if_splits)
  moreover from b have "frame s' = frame s4 \<and> si4735 s' = si4735 s4"
    using showRDS_frame(3) [of s4 s'] by (auto split: if_splits)
  ultimately show ?thesis using f2 by simp
qed

lemma loop_rds_frame:
  assumes "loop_rds r s = Inr s'"
  shows "frame s' = frame s \<and> (\<exists>cs. si4735 s' = si4735 s @ cs)"
proof (cases "currentMode s = FM")
  case False
  with assms show ?thesis by (simp add: loop_rds_def)
next
  case True
  with assms obtain s1 where
    a: "(if currentFrequency s \<noteq> previousFrequency s then
             andThen (andThen (andThen (clearRDS (s\<lparr>tft := tft s @ [FillRect]\<rparr>)) showRDSMsg)
                              showRDSStation)
                     (\<lambda>s1. Inr (s1\<lparr>previousFrequency := currentFrequency s1\<rparr>))
           else Inr s) = Inr s1"
    and b: "checkRDS r s1 = Inr s'"
    by (auto simp add: loop_rds_def dest: andThen_Inr)
  have "frame s1 = frame s \<and> si4735 s1 = si4735 s"
  proof (cases "currentFrequency s \<noteq> previousFrequency s")
    case False
    with a show ?thesis by simp
  next
    case True
    with a obtain t3 where t3: "andThen (andThen (clearRDS (s\<lparr>tft := tft s @ [FillRect]\<rparr>)) showRDSMsg)
                              showRDSStation = Inr t3"
      and e: "s1 = t3\<lparr>previousFrequency := currentFrequency t3\<rparr>"
      by (auto dest: andThen_Inr)
    from t3 obtain t2 where t2: "andThen (clearRDS (s\<lparr>tft := tft s @ [FillRect]\<rparr>)) showRDSMsg = Inr t2"
      and f3: "showRDSStation t2 = Inr t3"
      by (blast dest: andThen_Inr)
    from t2 obtain t1 where t1: "clearRDS (s\<lparr>tft := tft s @ [FillRect]\<rparr>) = Inr t1"
      and f2: "showRDSMsg t1 = Inr t2"
      by (blast dest: andThen_Inr)
    from showRDS_frame(4) [OF t1] showRDS_frame(1) [OF f2] showRDS_frame(2) [OF f3] e
    show ?thesis by (simp add: frame_def)
  qed
  with checkRDS_frame [OF b] show ?thesis by simp
qed

text \<open>One pass of \<open>loop\<close> that does not fault.\<close>

lemma loop_inv:
  assumes "loop i s = Inr s'"
  shows "wf s \<Longrightarrow> wf s'" and "bfoInv s \<Longrightarrow> bfoInv s'" and "ssbInv s \<Longrightarrow> ssbInv s'"
    and "patchedSince s s'"
proof -
  define m where "m = fold runBlock (blocks i) s"
  have h: "\<forall>b \<in> set (blocks i). handler (snd b)" by (simp add: blocks_handlers)
  from assms have r: "loop_rds (rds i) m = Inr s'" by (simp add: loop_def m_def)
  note f = loop_rds_frame [OF r]
  have "wf s \<Longrightarrow> wf m" unfolding m_def
    by (rule fold_blocks_inv [where I = wf, OF _ h]) (auto intro: handlers_wf)
  then show "wf s \<Longrightarrow> wf s'"
    using frame_inv(1) [OF conjunct1 [OF f]] by simp
  have "bfoInv s \<Longrightarrow> bfoInv m" unfolding m_def
    by (rule fold_blocks_inv [where I = bfoInv, OF _ h]) (auto intro: handlers_bfoInv)
  then show "bfoInv s \<Longrightarrow> bfoInv s'"
    using frame_inv(2) [OF conjunct1 [OF f]] by simp
  have "ssbInv s \<Longrightarrow> ssbInv m" unfolding m_def
    by (rule fold_blocks_inv [where I = ssbInv, OF _ h]) (auto intro: handlers_ssbInv)
  then show "ssbInv s \<Longrightarrow> ssbInv s'"
    using frame_inv(3) [OF conjunct1 [OF f]] by simp
  have "patchedSince s m" unfolding m_def using h by (rule fold_blocks_patched)
  moreover have "patchedSince m s'" using f by (simp add: patchedSince_frame)
  ultimately show "patchedSince s s'" by (rule patchedSince_trans)
qed

lemma reachable_inv:
  assumes "reachable s"
  shows "wf s \<and> bfoInv s \<and> ssbInv s"
  using assms
proof (induction rule: reachable.induct)
  case (reach_setup f)
  show ?case
    by (simp add: setup_sketch_wf bfoInv_def ssbInv_def setup_sketch_fields)
next
  case (reach_loop s i s')
  then show ?case using loop_inv(1,2,3) [of i s s'] by simp
qed

lemma loop_one_button:
  "currentMode (on_bSW s) \<noteq> FM \<Longrightarrow> loop (idle\<lparr>bSW := True\<rparr>) s = Inr (on_bSW s)"
  "currentMode (on_bLSB s) \<noteq> FM \<Longrightarrow> loop (idle\<lparr>bLSB := True\<rparr>) s = Inr (on_bLSB s)"
  "currentMode (on_pushButton s) \<noteq> FM \<Longrightarrow>
     loop (idle\<lparr>pushButtonLow := True\<rparr>) s = Inr (on_pushButton s)"
  by (simp_all add: loop_def blocks_def runBlock_def idle_def loop_rds_def)

lemma on_bLSB_41m:
  "currentMode (on_bLSB (on_bSW (setup_sketch f))) = LSB"
  "ssbLoaded (on_bLSB (on_bSW (setup_sketch f)))"
  "\<not> bfoOn (on_bLSB (on_bSW (setup_sketch f)))"
proof -
  have n: "currentMode (on_bSW (setup_sketch f)) \<noteq> FM" by (simp add: on_bSW_setup)
  have e: "on_bLSB (on_bSW (setup_sketch f)) =
        useBand (saveBand ((loadSSB (on_bSW (setup_sketch f)))\<lparr>currentMode := LSB\<rparr>))"
    using n on_bSW_setup_more(3) [of f] by (simp add: on_bLSB_def)
  note p = ssb_press [OF on_bSW_wf [OF setup_sketch_wf] on_bSW_setup_notFM on_bSW_setup_more(3), of LSB f]
  show "currentMode (on_bLSB (on_bSW (setup_sketch f))) = LSB"
    "ssbLoaded (on_bLSB (on_bSW (setup_sketch f)))"
    using p by (simp_all only: e)
  show "\<not> bfoOn (on_bLSB (on_bSW (setup_sketch f)))"
    using on_bSW_setup_more(4) [of f]
    by (simp add: e useBand_eq saveBand_fields loadSSB_fields)
qed

lemma reach_41m:
  "reachable (on_bSW (setup_sketch f))"
  "reachable (on_bLSB (on_bSW (setup_sketch f)))"
proof -
  show r: "reachable (on_bSW (setup_sketch f))"
    by (rule reach_loop [OF reach_setup loop_one_button(1)]) (simp add: on_bSW_setup)
  show "reachable (on_bLSB (on_bSW (setup_sketch f)))"
    by (rule reach_loop [OF r loop_one_button(2)]) (simp add: on_bLSB_41m)
qed

text \<open>
  Claim C5. In every state the sketch can be in between two passes of \<open>loop\<close>, FM or
  AM mode means that \<open>ssbLoaded\<close> is false. Each transition that assigns FM or AM (the
  two assigning branches of \<open>useBand\<close>, the AM and FM buttons when they fire, the MW
  and SW shortcuts) leaves it false. \<open>loadSSB\<close> sets it after sending its whole command
  sequence, and whenever a handler, or a whole pass of \<open>loop\<close>, turns the flag from
  false to true, the chip log of that handler or pass contains a complete patch
  sequence.
\<close>

theorem ssbLoaded_discipline:
  "(reachable s \<longrightarrow> (currentMode s = FM \<or> currentMode s = AM \<longrightarrow> \<not> ssbLoaded s))
   \<and> (bandType (curBand s) = FM_BAND_TYPE \<or> \<not> ssbLoaded s \<longrightarrow>
        (currentMode (useBand s) = FM \<or> currentMode (useBand s) = AM) \<and> \<not> ssbLoaded (useBand s))
   \<and> (currentMode s \<noteq> FM \<longrightarrow> \<not> ssbLoaded (on_bAM s) \<and> \<not> ssbLoaded (on_bFM s))
   \<and> \<not> ssbLoaded (on_bMW s) \<and> \<not> ssbLoaded (on_bSW s)
   \<and> ssbLoaded (loadSSB s) \<and> si4735 (loadSSB s) = si4735 s @ patchSeq (bwIdxSSB s)
   \<and> (handler h \<and> \<not> ssbLoaded s \<and> ssbLoaded (h s) \<longrightarrow>
        (\<exists>pre bw post. si4735 (h s) = si4735 s @ pre @ patchSeq bw @ post))
   \<and> (loop i s = Inr s' \<and> \<not> ssbLoaded s \<and> ssbLoaded s' \<longrightarrow>
        (\<exists>pre bw post. si4735 s' = si4735 s @ pre @ patchSeq bw @ post))"
proof -
  have 1: "reachable s \<longrightarrow> (currentMode s = FM \<or> currentMode s = AM \<longrightarrow> \<not> ssbLoaded s)"
    using reachable_inv [of s] by (simp add: ssbInv_def)
  have 2: "handler h \<and> \<not> ssbLoaded s \<and> ssbLoaded (h s) \<longrightarrow>
        (\<exists>pre bw post. si4735 (h s) = si4735 s @ pre @ patchSeq bw @ post)"
    using handlers_patched [of h s] by (auto simp add: patchedSince_def)
  have 3: "loop i s = Inr s' \<and> \<not> ssbLoaded s \<and> ssbLoaded s' \<longrightarrow>
        (\<exists>pre bw post. si4735 s' = si4735 s @ pre @ patchSeq bw @ post)"
    using loop_inv(4) [of i s s'] by (auto simp add: patchedSince_def)
  from 1 2 3 useBand_clears [of s] mode_buttons_clear [of s] loadSSB_fields(1,2) [of s]
  show ?thesis by blast
qed

theorem ssbLoaded_discipline_witness:
  "reachable (on_bSW (setup_sketch 10390))
   \<and> currentMode (on_bSW (setup_sketch 10390)) = AM
   \<and> \<not> ssbLoaded (on_bSW (setup_sketch 10390))
   \<and> \<not> ssbLoaded (useBand (on_bSW (setup_sketch 10390)))
   \<and> \<not> ssbLoaded (on_bAM (on_bSW (setup_sketch 10390)))
   \<and> handler on_bLSB
   \<and> loop (idle\<lparr>bLSB := True\<rparr>) (on_bSW (setup_sketch 10390)) = Inr (on_bLSB (on_bSW (setup_sketch 10390)))
   \<and> ssbLoaded (on_bLSB (on_bSW (setup_sketch 10390)))
   \<and> (\<exists>pre bw post. si4735 (on_bLSB (on_bSW (setup_sketch 10390)))
          = si4735 (on_bSW (setup_sketch 10390)) @ pre @ patchSeq bw @ post)"
proof -
  have l: "loop (idle\<lparr>bLSB := True\<rparr>) (on_bSW (setup_sketch 10390)) = Inr (on_bLSB (on_bSW (setup_sketch 10390)))"
    by (rule loop_one_button(2)) (simp add: on_bLSB_41m)
  from ssbLoaded_discipline [of "on_bSW (setup_sketch 10390)" on_bLSB "idle\<lparr>bLSB := True\<rparr>"
        "on_bLSB (on_bSW (setup_sketch 10390))"]
    reach_41m(1) [of 10390] on_bSW_setup(1) [of 10390] on_bSW_setup_more(3) [of 10390]
    handler.intros(12) l on_bLSB_41m(2) [of 10390]
  show ?thesis by simp
qed

lemma frame_bfoOn: "frame s' = frame s \<Longrightarrow> bfoOn s' = bfoOn s"
  by (simp add: frame_def)

lemma useBand_bfoOn: "bfoOn (useBand x) \<Longrightarrow> bfoOn x"
  by (simp add: useBand_eq)

lemma handlers_bfoOn:
  assumes "handler h" and "bfoOn (h s)" and "\<not> bfoOn s"
  shows "h s = on_pushButton s \<and> (currentMode s = LSB \<or> currentMode s = USB)"
  using assms
proof (induction rule: handler.induct)
  case 2
  then show ?case by (auto simp add: bandUp_alt saveBand_fields dest: useBand_bfoOn)
next
  case 3
  then show ?case by (auto simp add: bandDown_alt saveBand_fields dest: useBand_bfoOn)
next
  case 8
  then show ?case using mode_buttons_clear(1) [of s] by (cases "currentMode s = FM") (simp_all add: on_bAM_def)
next
  case 9
  then show ?case using mode_buttons_clear(2) [of s] by (cases "currentMode s = FM") (simp_all add: on_bFM_def)
next
  case 10
  then show ?case using mode_buttons_clear(3) [of s] by simp
next
  case 11
  then show ?case using mode_buttons_clear(4) [of s] by simp
next
  case 12
  then show ?case
    by (cases "currentMode s = FM")
       (auto simp add: on_bLSB_def Let_def saveBand_fields loadSSB_fields dest!: useBand_bfoOn split: if_splits)
next
  case 13
  then show ?case
    by (cases "currentMode s = FM")
       (auto simp add: on_bUSB_def Let_def saveBand_fields loadSSB_fields dest!: useBand_bfoOn split: if_splits)
next
  case 16
  then show ?case by (simp add: on_bStep_frame)
next
  case 17
  then show ?case by (cases "currentMode s") (simp_all add: on_pushButton_frame)
qed (simp_all add: frame_bfoOn [OF frame_simple(1)] frame_bfoOn [OF frame_simple(2)]
        frame_bfoOn [OF frame_simple(3)] frame_bfoOn [OF frame_simple(4)]
        frame_bfoOn [OF frame_simple(5)] frame_bfoOn [OF frame_simple(6)]
        frame_bfoOn [OF frame_simple(7)] frame_bfoOn [OF frame_simple(8)])

text \<open>
  Claim C8. In every state the sketch can be in between two passes of \<open>loop\<close>,
  \<open>bfoOn\<close> implies LSB or USB mode. Each transition that assigns FM or AM (the two
  assigning branches of \<open>useBand\<close>, the AM and FM buttons when they fire, the MW and SW
  shortcuts) leaves \<open>bfoOn\<close> false. The encoder push button never changes the mode and
  turns \<open>bfoOn\<close> on only in LSB or USB, and it is the only handler that turns it on.
\<close>

theorem bfo_only_in_ssb:
  "(reachable s \<longrightarrow> (bfoOn s \<longrightarrow> currentMode s = LSB \<or> currentMode s = USB))
   \<and> (bandType (curBand u) = FM_BAND_TYPE \<or> \<not> ssbLoaded u \<longrightarrow>
        (currentMode (useBand u) = FM \<or> currentMode (useBand u) = AM) \<and> \<not> bfoOn (useBand u))
   \<and> (currentMode a \<noteq> FM \<longrightarrow> \<not> bfoOn (on_bAM a) \<and> \<not> bfoOn (on_bFM a))
   \<and> \<not> bfoOn (on_bMW a) \<and> \<not> bfoOn (on_bSW a)
   \<and> currentMode (on_pushButton p) = currentMode p
   \<and> (bfoOn (on_pushButton p) \<and> \<not> bfoOn p \<longrightarrow> currentMode p = LSB \<or> currentMode p = USB)
   \<and> (handler h \<and> bfoOn (h p) \<and> \<not> bfoOn p \<longrightarrow>
        h p = on_pushButton p \<and> (currentMode p = LSB \<or> currentMode p = USB))"
proof -
  have 1: "reachable s \<longrightarrow> (bfoOn s \<longrightarrow> currentMode s = LSB \<or> currentMode s = USB)"
    using reachable_inv [of s] by (simp add: bfoInv_def)
  have 2: "bfoOn (on_pushButton p) \<and> \<not> bfoOn p \<longrightarrow> currentMode p = LSB \<or> currentMode p = USB"
    by (cases "currentMode p") (simp_all add: on_pushButton_frame)
  from 1 2 useBand_clears [of u] mode_buttons_clear [of a] on_pushButton_frame(1) [of p]
    handlers_bfoOn [of h p]
  show ?thesis by blast
qed

theorem bfo_only_in_ssb_witness:
  "reachable (on_pushButton (on_bLSB (on_bSW (setup_sketch 10390))))
   \<and> bfoOn (on_pushButton (on_bLSB (on_bSW (setup_sketch 10390))))
   \<and> currentMode (on_pushButton (on_bLSB (on_bSW (setup_sketch 10390)))) = LSB
   \<and> \<not> ssbLoaded (on_bSW (setup_sketch 10390))
   \<and> \<not> bfoOn (useBand (on_bSW (setup_sketch 10390)))
   \<and> currentMode (on_bLSB (on_bSW (setup_sketch 10390))) \<noteq> FM
   \<and> \<not> bfoOn (on_bAM (on_bLSB (on_bSW (setup_sketch 10390))))
   \<and> handler on_pushButton
   \<and> \<not> bfoOn (on_bLSB (on_bSW (setup_sketch 10390)))"
proof -
  have m: "currentMode (on_pushButton (on_bLSB (on_bSW (setup_sketch 10390)))) = LSB"
    by (simp add: on_pushButton_frame on_bLSB_41m)
  have b: "bfoOn (on_pushButton (on_bLSB (on_bSW (setup_sketch 10390))))"
    by (simp add: on_pushButton_frame on_bLSB_41m)
  have r: "reachable (on_pushButton (on_bLSB (on_bSW (setup_sketch 10390))))"
    by (rule reach_loop [OF reach_41m(2) loop_one_button(3)]) (simp add: m)
  from bfo_only_in_ssb [of "on_pushButton (on_bLSB (on_bSW (setup_sketch 10390)))"
        "on_bSW (setup_sketch 10390)" "on_bLSB (on_bSW (setup_sketch 10390))"
        "on_bLSB (on_bSW (setup_sketch 10390))" on_pushButton]
    r b m on_bSW_setup_more(3) [of 10390] on_bLSB_41m [of 10390] handler.intros(17)
  show ?thesis by simp
qed

section \<open>RDS\<close>

lemma showRDSMsg_step:
  "\<exists>s'. (if rdsMsg s \<noteq> None then showRDSMsg s else Inr s) = Inr s'
     \<and> tft s' = tft s @ pushIfNew 55 85 (rdsMsg s) (bufferRdsMsg s)
     \<and> bufferRdsMsg s' = cacheAfter True (rdsMsg s) (bufferRdsMsg s)
     \<and> bufferStatioName s' = bufferStatioName s \<and> bufferRdsTime s' = bufferRdsTime s
     \<and> rdsMsg s' = rdsMsg s \<and> stationName s' = stationName s \<and> rdsTime s' = rdsTime s"
  by (cases "rdsMsg s") (simp_all add: showRDSMsg_def pushIfNew_def cacheAfter_def)

lemma showRDSStation_step:
  "\<exists>s'. (if stationName s \<noteq> None then showRDSStation s else Inr s) = Inr s'
     \<and> tft s' = tft s @ pushIfNew 55 60 (stationName s) (bufferStatioName s)
     \<and> bufferStatioName s' = cacheAfter True (stationName s) (bufferStatioName s)
     \<and> bufferRdsMsg s' = bufferRdsMsg s \<and> bufferRdsTime s' = bufferRdsTime s
     \<and> rdsMsg s' = rdsMsg s \<and> stationName s' = stationName s \<and> rdsTime s' = rdsTime s"
  by (cases "stationName s") (simp_all add: showRDSStation_def pushIfNew_def cacheAfter_def)

lemma showRDSTime_step:
  "\<exists>s'. (if rdsTime s \<noteq> None then showRDSTime s else Inr s) = Inr s'
     \<and> tft s' = tft s @ pushIfNew 150 60 (rdsTime s) (bufferRdsTime s)
     \<and> bufferRdsTime s' = cacheAfter True (rdsTime s) (bufferRdsTime s)
     \<and> bufferRdsMsg s' = bufferRdsMsg s \<and> bufferStatioName s' = bufferStatioName s
     \<and> rdsMsg s' = rdsMsg s \<and> stationName s' = stationName s \<and> rdsTime s' = rdsTime s"
  by (cases "rdsTime s") (simp_all add: showRDSTime_def pushIfNew_def cacheAfter_def)

lemma checkRDS_pushes:
  "\<exists>s'. checkRDS r s = Inr s'
     \<and> tft s' = tft s @ rdsPushes r s
     \<and> bufferRdsMsg s' = cacheAfter (rdsReceived r \<and> rdsSync r \<and> rdsSyncFound r) (rdsText2A r) (bufferRdsMsg s)
     \<and> bufferStatioName s' = cacheAfter (rdsReceived r \<and> rdsSync r \<and> rdsSyncFound r) (rdsText0A r) (bufferStatioName s)
     \<and> bufferRdsTime s' = cacheAfter (rdsReceived r \<and> rdsSync r \<and> rdsSyncFound r) (rdsTimeStr r) (bufferRdsTime s)"
proof (cases "rdsReceived r \<and> rdsSync r \<and> rdsSyncFound r")
  case False
  then show ?thesis
    by (cases "rdsText2A r"; cases "rdsText0A r"; cases "rdsTimeStr r")
       (auto simp add: checkRDS_def chip_def Let_def rdsPushes_def cacheAfter_def)
next
  case True
  define s2 where "s2 = (chip [GetRdsStatus] s)\<lparr>rdsMsg := rdsText2A r, stationName := rdsText0A r,
                          rdsTime := rdsTimeStr r\<rparr>"
  have f2: "tft s2 = tft s" "bufferRdsMsg s2 = bufferRdsMsg s" "bufferStatioName s2 = bufferStatioName s"
    "bufferRdsTime s2 = bufferRdsTime s" "rdsMsg s2 = rdsText2A r" "stationName s2 = rdsText0A r"
    "rdsTime s2 = rdsTimeStr r"
    by (simp_all add: s2_def chip_def)
  have e: "checkRDS r s =
    andThen (andThen (if rdsMsg s2 \<noteq> None then showRDSMsg s2 else Inr s2)
                                (\<lambda>s3. if stationName s3 \<noteq> None then showRDSStation s3 else Inr s3))
                       (\<lambda>s4. if rdsTime s4 \<noteq> None then showRDSTime s4 else Inr s4)"
    by (simp only: checkRDS_def Let_def s2_def True simp_thms if_True)
  from showRDSMsg_step [of s2] obtain s3 where
    a: "(if rdsMsg s2 \<noteq> None then showRDSMsg s2 else Inr s2) = Inr s3"
    and a': "tft s3 = tft s2 @ pushIfNew 55 85 (rdsMsg s2) (bufferRdsMsg s2)"
      "bufferRdsMsg s3 = cacheAfter True (rdsMsg s2) (bufferRdsMsg s2)"
      "bufferStatioName s3 = bufferStatioName s2" "bufferRdsTime s3 = bufferRdsTime s2"
      "rdsMsg s3 = rdsMsg s2" "stationName s3 = stationName s2" "rdsTime s3 = rdsTime s2"
    by blast
  from showRDSStation_step [of s3] obtain s4 where
    b: "(if stationName s3 \<noteq> None then showRDSStation s3 else Inr s3) = Inr s4"
    and b': "tft s4 = tft s3 @ pushIfNew 55 60 (stationName s3) (bufferStatioName s3)"
      "bufferStatioName s4 = cacheAfter True (stationName s3) (bufferStatioName s3)"
      "bufferRdsMsg s4 = bufferRdsMsg s3" "bufferRdsTime s4 = bufferRdsTime s3"
      "rdsMsg s4 = rdsMsg s3" "stationName s4 = stationName s3" "rdsTime s4 = rdsTime s3"
    by blast
  from showRDSTime_step [of s4] obtain s5 where
    c: "(if rdsTime s4 \<noteq> None then showRDSTime s4 else Inr s4) = Inr s5"
    and c': "tft s5 = tft s4 @ pushIfNew 150 60 (rdsTime s4) (bufferRdsTime s4)"
      "bufferRdsTime s5 = cacheAfter True (rdsTime s4) (bufferRdsTime s4)"
      "bufferRdsMsg s5 = bufferRdsMsg s4" "bufferStatioName s5 = bufferStatioName s4"
    by blast
  have "checkRDS r s = Inr s5"
    by (simp only: e a b c andThen_def sum.case)
  moreover have "tft s5 = tft s @ rdsPushes r s"
    using True by (simp add: rdsPushes_def a' b' c' f2)
  moreover have "bufferRdsMsg s5 = cacheAfter True (rdsText2A r) (bufferRdsMsg s)"
    "bufferStatioName s5 = cacheAfter True (rdsText0A r) (bufferStatioName s)"
    "bufferRdsTime s5 = cacheAfter True (rdsTimeStr r) (bufferRdsTime s)"
    by (simp_all add: a' b' c' f2)
  ultimately show ?thesis using True by simp
qed

lemma clear_then_show:
  assumes "rdsMsg s \<noteq> None" and "stationName s \<noteq> None" and "rdsTime s \<noteq> None"
  shows "andThen (andThen (andThen (clearRDS (s\<lparr>tft := tft s @ [FillRect]\<rparr>)) showRDSMsg)
                              showRDSStation)
                     (\<lambda>s1. Inr (s1\<lparr>previousFrequency := currentFrequency s1\<rparr>))
         = Inr (rdsCleared s)"
  using assms
  by (auto simp add: clearRDS_def andThen_def showRDSMsg_def showRDSStation_def rdsCleared_def)

lemma clear_null:
  assumes "rdsMsg s = None \<or> stationName s = None \<or> rdsTime s = None"
  shows "clearRDS s = Inl NullPointerWrite"
  using assms by (auto simp add: clearRDS_def split: option.splits)

lemma fold_seek_last:
  "fs \<noteq> [] \<Longrightarrow> previousFrequency (fold showFrequencySeek fs s) = last fs"
  by (induction fs arbitrary: s) (auto simp add: showFrequencySeek_def)

lemma pushIfNew_mem:
  "x \<in> set (pushIfNew col line new cached) \<longleftrightarrow>
     (\<exists>m. new = Some m \<and> cached \<noteq> m \<and> x = PrintText col line m)"
  by (cases new) (auto simp add: pushIfNew_def)

text \<open>
  Claim C9, as the code has it. \<open>checkRDS\<close> never faults, and what it draws is
  \<open>rdsPushes\<close>: a field is pushed exactly when the chip reports it and it differs from
  the value cached for that field, which then becomes the cached value. When \<open>loop\<close>
  finds \<open>currentFrequency != previousFrequency\<close> in FM mode and the three RDS pointers
  are not null, it blanks the RDS area and empties all three cached values, with no
  push in between, before \<open>checkRDS\<close> runs. A turn of the encoder outside BFO mode
  leaves \<open>previousFrequency\<close> alone and so leads there; a seek whose last reported
  frequency is the final one leaves both frequencies equal and does not.
\<close>

theorem rds_push_on_change:
  "(\<exists>s'. checkRDS r s = Inr s'
      \<and> tft s' = tft s @ rdsPushes r s
      \<and> bufferRdsMsg s' = cacheAfter (rdsReceived r \<and> rdsSync r \<and> rdsSyncFound r) (rdsText2A r) (bufferRdsMsg s)
      \<and> bufferStatioName s' = cacheAfter (rdsReceived r \<and> rdsSync r \<and> rdsSyncFound r) (rdsText0A r) (bufferStatioName s)
      \<and> bufferRdsTime s' = cacheAfter (rdsReceived r \<and> rdsSync r \<and> rdsSyncFound r) (rdsTimeStr r) (bufferRdsTime s))
   \<and> (PrintText 55 85 m \<in> set (rdsPushes r s) \<longrightarrow> rdsText2A r = Some m \<and> bufferRdsMsg s \<noteq> m)
   \<and> (PrintText 55 60 m \<in> set (rdsPushes r s) \<longrightarrow> rdsText0A r = Some m \<and> bufferStatioName s \<noteq> m)
   \<and> (PrintText 150 60 m \<in> set (rdsPushes r s) \<longrightarrow> rdsTimeStr r = Some m \<and> bufferRdsTime s \<noteq> m)
   \<and> (currentMode c = FM \<and> currentFrequency c \<noteq> previousFrequency c
        \<and> rdsMsg c \<noteq> None \<and> stationName c \<noteq> None \<and> rdsTime c \<noteq> None \<longrightarrow>
        loop_rds r c = checkRDS r (rdsCleared c)
        \<and> bufferRdsMsg (rdsCleared c) = [] \<and> bufferStatioName (rdsCleared c) = []
        \<and> bufferRdsTime (rdsCleared c) = [] \<and> tft (rdsCleared c) = tft c @ [FillRect])
   \<and> (currentMode n = FM \<and> currentFrequency n = previousFrequency n \<longrightarrow> loop_rds r n = checkRDS r n)
   \<and> (currentMode q \<noteq> FM \<longrightarrow> loop_rds r q = Inr q)
   \<and> (\<not> bfoOn e \<longrightarrow>
        currentFrequency (on_encoder k f e) = f
        \<and> previousFrequency (on_encoder k f e) = previousFrequency e)
   \<and> (fs \<noteq> [] \<and> f = last fs \<longrightarrow>
        currentFrequency (on_bSeek d fs f e) = previousFrequency (on_bSeek d fs f e))"
proof -
  have 1: "PrintText 55 85 m \<in> set (rdsPushes r s) \<longrightarrow> rdsText2A r = Some m \<and> bufferRdsMsg s \<noteq> m"
    "PrintText 55 60 m \<in> set (rdsPushes r s) \<longrightarrow> rdsText0A r = Some m \<and> bufferStatioName s \<noteq> m"
    "PrintText 150 60 m \<in> set (rdsPushes r s) \<longrightarrow> rdsTimeStr r = Some m \<and> bufferRdsTime s \<noteq> m"
    by (auto simp add: rdsPushes_def pushIfNew_mem split: if_splits)
  have 2: "loop_rds r c = checkRDS r (rdsCleared c)
        \<and> bufferRdsMsg (rdsCleared c) = [] \<and> bufferStatioName (rdsCleared c) = []
        \<and> bufferRdsTime (rdsCleared c) = [] \<and> tft (rdsCleared c) = tft c @ [FillRect]"
    if "currentMode c = FM" "currentFrequency c \<noteq> previousFrequency c"
      "rdsMsg c \<noteq> None" "stationName c \<noteq> None" "rdsTime c \<noteq> None"
    using that clear_then_show [of c]
    by (simp add: loop_rds_def) (simp add: andThen_def rdsCleared_def)
  have 3: "currentMode n = FM \<and> currentFrequency n = previousFrequency n \<longrightarrow> loop_rds r n = checkRDS r n"
    by (simp add: loop_rds_def andThen_def)
  have 4: "currentMode q \<noteq> FM \<longrightarrow> loop_rds r q = Inr q"
    by (simp add: loop_rds_def)
  have 5: "\<not> bfoOn e \<longrightarrow>
        currentFrequency (on_encoder k f e) = f
        \<and> previousFrequency (on_encoder k f e) = previousFrequency e"
    by (simp add: on_encoder_def chip_def Let_def)
  have 6: "fs \<noteq> [] \<and> f = last fs \<longrightarrow>
        currentFrequency (on_bSeek d fs f e) = previousFrequency (on_bSeek d fs f e)"
    by (simp add: on_bSeek_def showStatus_eq chip_def Let_def fold_seek_last)
  from checkRDS_pushes [of r s] 1 2 3 4 5 6 show ?thesis by blast
qed

lemma retuned_fields:
  "currentMode retuned = FM" "currentFrequency retuned \<noteq> previousFrequency retuned"
  "rdsMsg retuned \<noteq> None" "stationName retuned \<noteq> None" "rdsTime retuned \<noteq> None"
  "tft retuned = []"
  by (simp_all add: retuned_def tunedRds_def setup_sketch_fields)

theorem rds_push_on_change_witness:
  "currentMode retuned = FM \<and> currentFrequency retuned \<noteq> previousFrequency retuned
   \<and> rdsMsg retuned \<noteq> None \<and> stationName retuned \<noteq> None \<and> rdsTime retuned \<noteq> None
   \<and> bufferRdsMsg retuned = ''OLD TEXT''
   \<and> (\<exists>s'. loop_rds rdsFresh retuned = Inr s'
         \<and> tft s' = [FillRect, PrintText 55 85 ''NEW TEXT'', PrintText 55 60 ''STATION2'',
                      PrintText 150 60 ''12:00'']
         \<and> bufferRdsMsg s' = ''NEW TEXT'')
   \<and> currentMode (setup_sketch 10390) = FM
   \<and> currentFrequency (setup_sketch 10390) = previousFrequency (setup_sketch 10390)
   \<and> loop_rds rdsFresh (setup_sketch 10390) = checkRDS rdsFresh (setup_sketch 10390)
   \<and> currentMode (on_bSW (setup_sketch 10390)) \<noteq> FM
   \<and> loop_rds rdsFresh (on_bSW (setup_sketch 10390)) = Inr (on_bSW (setup_sketch 10390))
   \<and> PrintText 55 85 ''NEW TEXT'' \<in> set (rdsPushes rdsFresh (rdsCleared retuned))
   \<and> rdsText2A rdsFresh = Some ''NEW TEXT'' \<and> bufferRdsMsg (rdsCleared retuned) \<noteq> ''NEW TEXT''
   \<and> PrintText 55 60 ''STATION2'' \<in> set (rdsPushes rdsFresh (rdsCleared retuned))
   \<and> rdsText0A rdsFresh = Some ''STATION2'' \<and> bufferStatioName (rdsCleared retuned) \<noteq> ''STATION2''
   \<and> PrintText 150 60 ''12:00'' \<in> set (rdsPushes rdsFresh (rdsCleared retuned))
   \<and> rdsTimeStr rdsFresh = Some ''12:00'' \<and> bufferRdsTime (rdsCleared retuned) \<noteq> ''12:00''
   \<and> \<not> bfoOn tunedRds
   \<and> currentFrequency (on_encoder 1 10400 tunedRds) = 10400
   \<and> previousFrequency (on_encoder 1 10400 tunedRds) = 10390
   \<and> [10400, 10410] \<noteq> ([] :: 16 word list) \<and> (10410 :: 16 word) = last [10400, 10410]
   \<and> currentFrequency (on_bSeek SEEK_UP [10400, 10410] 10410 tunedRds)
       = previousFrequency (on_bSeek SEEK_UP [10400, 10410] 10410 tunedRds)"
proof -
  note t = rds_push_on_change [of rdsFresh "rdsCleared retuned" "''NEW TEXT''" retuned
      "setup_sketch 10390" "on_bSW (setup_sketch 10390)" tunedRds 1 10400 "[10400, 10410]" SEEK_UP]
  note t2 = rds_push_on_change [of rdsFresh "rdsCleared retuned" "''STATION2''" retuned
      "setup_sketch 10390" "on_bSW (setup_sketch 10390)" tunedRds 1 10410 "[10400, 10410]" SEEK_UP]
  note t3 = rds_push_on_change [of rdsFresh "rdsCleared retuned" "''12:00''" retuned
      "setup_sketch 10390" "on_bSW (setup_sketch 10390)" tunedRds 1 10410 "[10400, 10410]" SEEK_UP]
  have p: "rdsPushes rdsFresh (rdsCleared retuned) =
      [PrintText 55 85 ''NEW TEXT'', PrintText 55 60 ''STATION2'', PrintText 150 60 ''12:00'']"
    by (simp add: rdsPushes_def pushIfNew_def rdsFresh_def rdsCleared_def)
  have c: "cacheAfter (rdsReceived rdsFresh \<and> rdsSync rdsFresh \<and> rdsSyncFound rdsFresh)
             (rdsText2A rdsFresh) (bufferRdsMsg (rdsCleared retuned)) = ''NEW TEXT''"
    by (simp add: cacheAfter_def rdsFresh_def)
  from t retuned_fields have l: "loop_rds rdsFresh retuned = checkRDS rdsFresh (rdsCleared retuned)"
    by blast
  from t obtain s' where "checkRDS rdsFresh (rdsCleared retuned) = Inr s'"
    "tft s' = tft (rdsCleared retuned) @ rdsPushes rdsFresh (rdsCleared retuned)"
    "bufferRdsMsg s' = cacheAfter (rdsReceived rdsFresh \<and> rdsSync rdsFresh \<and> rdsSyncFound rdsFresh)
             (rdsText2A rdsFresh) (bufferRdsMsg (rdsCleared retuned))"
    by blast
  then have e: "\<exists>s'. loop_rds rdsFresh retuned = Inr s'
         \<and> tft s' = [FillRect, PrintText 55 85 ''NEW TEXT'', PrintText 55 60 ''STATION2'',
                      PrintText 150 60 ''12:00'']
         \<and> bufferRdsMsg s' = ''NEW TEXT''"
    by (simp add: l p c) (simp add: rdsCleared_def retuned_fields)
  have b: "bufferRdsMsg retuned = ''OLD TEXT''" by (simp add: retuned_def tunedRds_def)
  from t have n: "loop_rds rdsFresh (setup_sketch 10390) = checkRDS rdsFresh (setup_sketch 10390)"
    "loop_rds rdsFresh (on_bSW (setup_sketch 10390)) = Inr (on_bSW (setup_sketch 10390))"
    by (simp_all add: setup_sketch_fields on_bSW_setup)
  have u: "\<not> bfoOn tunedRds" "previousFrequency tunedRds = 10390"
    by (simp_all add: tunedRds_def setup_sketch_fields)
  from t u have v: "currentFrequency (on_encoder 1 10400 tunedRds) = 10400"
    "previousFrequency (on_encoder 1 10400 tunedRds) = 10390"
    by simp_all
  have m1: "PrintText 55 85 ''NEW TEXT'' \<in> set (rdsPushes rdsFresh (rdsCleared retuned))"
    "PrintText 55 60 ''STATION2'' \<in> set (rdsPushes rdsFresh (rdsCleared retuned))"
    "PrintText 150 60 ''12:00'' \<in> set (rdsPushes rdsFresh (rdsCleared retuned))"
    by (simp_all add: p)
  from t m1 have f1: "rdsText2A rdsFresh = Some ''NEW TEXT'' \<and> bufferRdsMsg (rdsCleared retuned) \<noteq> ''NEW TEXT''"
    by blast
  from t2 m1 have f2: "rdsText0A rdsFresh = Some ''STATION2'' \<and> bufferStatioName (rdsCleared retuned) \<noteq> ''STATION2''"
    by blast
  from t3 m1 have f3: "rdsTimeStr rdsFresh = Some ''12:00'' \<and> bufferRdsTime (rdsCleared retuned) \<noteq> ''12:00''"
    by blast
  have k: "[10400, 10410] \<noteq> ([] :: 16 word list)" "(10410 :: 16 word) = last [10400, 10410]"
    by simp_all
  from t2 k have g: "currentFrequency (on_bSeek SEEK_UP [10400, 10410] 10410 tunedRds)
       = previousFrequency (on_bSeek SEEK_UP [10400, 10410] 10410 tunedRds)"
    by blast
  have r: "currentMode (setup_sketch 10390) = FM"
    "currentFrequency (setup_sketch 10390) = previousFrequency (setup_sketch 10390)"
    "currentMode (on_bSW (setup_sketch 10390)) \<noteq> FM"
    by (simp_all add: setup_sketch_fields on_bSW_setup)
  from retuned_fields(1-5) b e r n m1 f1 f2 f3 u(1) v k g show ?thesis
    by blast
qed

text \<open>
  A seek in FM: the progress callback stores each frequency in \<open>previousFrequency\<close> as
  well, so after the seek \<open>loop\<close> sees no change and the cache keeps its old values.
\<close>

lemma seek_tick:
  "fold runBlock (blocks (idle\<lparr>bSeekUp := True, seekUpProgress := [10400, 10410], freqSeekUp := 10410\<rparr>))
     s = on_bSeek SEEK_UP [10400, 10410] 10410 s"
  by (simp add: blocks_def runBlock_def idle_def)

lemma seek_tunedRds:
  "currentMode (on_bSeek SEEK_UP [10400, 10410] 10410 tunedRds) = FM"
  "currentFrequency (on_bSeek SEEK_UP [10400, 10410] 10410 tunedRds) = 10410"
  "previousFrequency (on_bSeek SEEK_UP [10400, 10410] 10410 tunedRds) = 10410"
  "bufferRdsMsg (on_bSeek SEEK_UP [10400, 10410] 10410 tunedRds) = ''OLD TEXT''"
  "bufferStatioName (on_bSeek SEEK_UP [10400, 10410] 10410 tunedRds) = ''STATION1''"
  "bufferRdsTime (on_bSeek SEEK_UP [10400, 10410] 10410 tunedRds) = ''11:59''"
  "tft (on_bSeek SEEK_UP [10400, 10410] 10410 tunedRds) = []"
  by (simp_all add: on_bSeek_def showStatus_eq chip_def Let_def showFrequencySeek_def tunedRds_def
        setup_sketch_fields)

theorem rds_clear_on_change_counterexample:
  "currentMode tunedRds = FM \<and> currentFrequency tunedRds = 10390
   \<and> loop (idle\<lparr>bSeekUp := True, seekUpProgress := [10400, 10410], freqSeekUp := 10410\<rparr>) tunedRds
       = Inr (chip [GetRdsStatus] (on_bSeek SEEK_UP [10400, 10410] 10410 tunedRds))
   \<and> currentFrequency (chip [GetRdsStatus] (on_bSeek SEEK_UP [10400, 10410] 10410 tunedRds)) = 10410
   \<and> bufferRdsMsg (chip [GetRdsStatus] (on_bSeek SEEK_UP [10400, 10410] 10410 tunedRds)) = ''OLD TEXT''
   \<and> bufferStatioName (chip [GetRdsStatus] (on_bSeek SEEK_UP [10400, 10410] 10410 tunedRds)) = ''STATION1''
   \<and> bufferRdsTime (chip [GetRdsStatus] (on_bSeek SEEK_UP [10400, 10410] 10410 tunedRds)) = ''11:59''
   \<and> tft (chip [GetRdsStatus] (on_bSeek SEEK_UP [10400, 10410] 10410 tunedRds)) = []"
proof -
  have "loop_rds (rds idle) (on_bSeek SEEK_UP [10400, 10410] 10410 tunedRds)
        = Inr (chip [GetRdsStatus] (on_bSeek SEEK_UP [10400, 10410] 10410 tunedRds))"
    by (simp add: loop_rds_def andThen_def seek_tunedRds checkRDS_def idle_def)
  moreover have "currentMode tunedRds = FM" "currentFrequency tunedRds = 10390"
    by (simp_all add: tunedRds_def setup_sketch_fields)
  ultimately show ?thesis
    by (simp add: loop_def seek_tick chip_def seek_tunedRds)
qed

text \<open>A frequency change in FM while one of the three RDS pointers is null.\<close>

lemma loop_rds_null:
  assumes "currentMode s = FM" and "currentFrequency s \<noteq> previousFrequency s"
    and "rdsMsg s = None \<or> stationName s = None \<or> rdsTime s = None"
  shows "loop_rds r s = Inl NullPointerWrite"
proof -
  have "clearRDS (s\<lparr>tft := tft s @ [FillRect]\<rparr>) = Inl NullPointerWrite"
    using assms(3) by (intro clear_null) simp
  then show ?thesis using assms(1,2) by (simp add: loop_rds_def andThen_def)
qed

text \<open>
  Claim C10. After start-up the three RDS pointers are null. One encoder step in FM
  changes the frequency, and the clearing statement of \<open>loop\<close> then stores through a
  null pointer.
\<close>

theorem rds_clear_null_write:
  "rdsMsg (setup_sketch 10390) = None \<and> stationName (setup_sketch 10390) = None
   \<and> rdsTime (setup_sketch 10390) = None
   \<and> loop (idle\<lparr>encoderCount := 1, freqTuned := 10400\<rparr>) (setup_sketch 10390) = Inl NullPointerWrite"
proof -
  have f: "fold runBlock (blocks (idle\<lparr>encoderCount := 1, freqTuned := 10400\<rparr>)) (setup_sketch 10390)
        = on_encoder 1 10400 (setup_sketch 10390)"
    by (simp add: blocks_def runBlock_def idle_def)
  have e: "currentMode (on_encoder 1 10400 (setup_sketch 10390)) = FM"
    "currentFrequency (on_encoder 1 10400 (setup_sketch 10390)) = 10400"
    "previousFrequency (on_encoder 1 10400 (setup_sketch 10390)) = 10390"
    "rdsTime (on_encoder 1 10400 (setup_sketch 10390)) = None"
    by (simp_all add: on_encoder_def chip_def setup_sketch_fields)
  have "loop_rds r (on_encoder 1 10400 (setup_sketch 10390)) = Inl NullPointerWrite" for r
    by (rule loop_rds_null) (simp_all add: e)
  then show ?thesis by (simp add: loop_def f setup_sketch_fields)
qed

end
